theory Spec2Isabelle
  imports Main
begin

section \<open>Strings\<close>

text \<open>
  The tool is the class \<open>RelatorioRotinaTool\<close> (second document of
  \<open>src/src/tools/CodeReviewTool.ts\<close>, lines 213--1554). Its strings are modelled as
  \<open>string\<close>: lists of 8-bit characters, each the code unit of the same number
  (U+0000 to U+00FF). Among these the white space of \<open>String.prototype.trim\<close> and of the
  regular expressions' \<open>\s\<close> is TAB, LF, VT, FF, CR, the blank and the no-break space
  U+00A0, which is \<open>isSpace\<close>. \<open>toUpperCase\<close> maps the letters a--z to A--Z and leaves
  every other character alone: letters outside ASCII, and text with code units above
  U+00FF, are outside the model.
\<close>

definition toUpperChar :: "char \<Rightarrow> char" where
  "toUpperChar c =
     (case map_of (zip ''abcdefghijklmnopqrstuvwxyz'' ''ABCDEFGHIJKLMNOPQRSTUVWXYZ'') c of
        Some u \<Rightarrow> u
      | None \<Rightarrow> c)"

definition toUpperCase :: "string \<Rightarrow> string" where
  "toUpperCase s = map toUpperChar s"

definition isSpace :: "char \<Rightarrow> bool" where
  "isSpace c =
     (c \<in> set [CHR 0x09, CHR 0x0A, CHR 0x0B, CHR 0x0C, CHR 0x0D, CHR '' '', CHR 0xA0])"

definition trim :: "string \<Rightarrow> string" where
  "trim s = rev (dropWhile isSpace (rev (dropWhile isSpace s)))"

definition startsWith :: "string \<Rightarrow> string \<Rightarrow> bool" where
  "startsWith s p = (take (length p) s = p)"

definition endsWith :: "string \<Rightarrow> string \<Rightarrow> bool" where
  "endsWith s p = (length p \<le> length s \<and> drop (length s - length p) s = p)"

text \<open>\<open>String.prototype.includes\<close>: \<open>kw\<close> occurs in \<open>s\<close> as a contiguous piece.\<close>

fun strIncludes :: "string \<Rightarrow> string \<Rightarrow> bool" where
  "strIncludes [] kw = (kw = [])"
| "strIncludes (c # cs) kw = (startsWith (c # cs) kw \<or> strIncludes cs kw)"

text \<open>
  A JavaScript \<open>Set\<close> of strings keeps its members in the order of their first
  insertion: \<open>setAdd\<close> is \<open>Set.prototype.add\<close>, \<open>newSet\<close> is \<open>new Set(array)\<close> read
  back with the spread operator.
\<close>

definition setAdd :: "'a list \<Rightarrow> 'a \<Rightarrow> 'a list" where
  "setAdd s x = (if x \<in> set s then s else s @ [x])"

definition newSet :: "'a list \<Rightarrow> 'a list" where
  "newSet xs = foldl setAdd [] xs"

section \<open>NameResolver: \<open>normalizeRoutineName\<close> (lines 387--437)\<close>

datatype error =
    InvalidRoutineName   \<comment> \<open>\<open>Nome da rotina invalido\<close>: the argument is falsy\<close>
  | EmptyRoutineName     \<comment> \<open>\<open>Nome da rotina nao pode ser vazio\<close>: nothing is left after \<open>trim\<close>\<close>
  | RepoNotConfigured    \<comment> \<open>\<open>getRepoPath\<close>: the environment variable is unset or empty\<close>

record normalized_routine =
  original :: string
  baseName :: string
  baseNameUpper :: string
  withPrefix :: string
  withoutPrefix :: string
  variations :: "string list"

text \<open>\<open>s.replace(/\.(prw|tlpp|prx)$/i, '')\<close>: one of the three extensions, in any case,
  is cut from the end of the string.\<close>

definition stripExtension :: "string \<Rightarrow> string" where
  "stripExtension s =
     (if endsWith (toUpperCase s) ''.PRW'' then take (length s - 4) s
      else if endsWith (toUpperCase s) ''.TLPP'' then take (length s - 5) s
      else if endsWith (toUpperCase s) ''.PRX'' then take (length s - 4) s
      else s)"

definition extensions :: "string list" where
  "extensions = [''.prw'', ''.PRW'', ''.tlpp'', ''.TLPP'', ''.prx'', ''.PRX'']"

definition normalizeRoutineName :: "string \<Rightarrow> error + normalized_routine" where
  "normalizeRoutineName routine =
     (if routine = [] then Inl InvalidRoutineName
      else
        let original = trim routine in
        if original = [] then Inl EmptyRoutineName
        else
          let baseName = stripExtension original;
              baseNameUpper = toUpperCase baseName;
              hasPrefix = startsWith baseNameUpper ''U_'';
              withoutPrefix = (if hasPrefix then drop 2 baseNameUpper else baseNameUpper);
              withPrefix = (if hasPrefix then baseNameUpper else ''U_'' @ baseNameUpper);
              variations =
                [baseName, baseNameUpper, withPrefix, withoutPrefix] @
                concat (map (\<lambda>ext. [baseName @ ext, baseNameUpper @ ext,
                                      withPrefix @ ext, withoutPrefix @ ext]) extensions)
          in Inr \<lparr> original = original, baseName = baseName, baseNameUpper = baseNameUpper,
                   withPrefix = withPrefix, withoutPrefix = withoutPrefix,
                   variations = newSet variations \<rparr>)"


section \<open>Regular expressions\<close>

text \<open>
  The regular expressions of the source are written as lists of tokens. In every
  expression of the source a repetition (\<open>\s+\<close>, \<open>\s*\<close>, \<open>\w+\<close>, \<open>["']?\<close>) is followed by
  a token that cannot start with a character of the repeated class, so the greedy
  match of each token is the only one that can succeed and no backtracking is modelled.
\<close>

definition toLowerChar :: "char \<Rightarrow> char" where
  "toLowerChar c =
     (case map_of (zip ''ABCDEFGHIJKLMNOPQRSTUVWXYZ'' ''abcdefghijklmnopqrstuvwxyz'') c of
        Some l \<Rightarrow> l
      | None \<Rightarrow> c)"

definition toLowerCase :: "string \<Rightarrow> string" where
  "toLowerCase s = map toLowerChar s"

definition isUpperAZ :: "char \<Rightarrow> bool" where
  "isUpperAZ c = (c \<in> set ''ABCDEFGHIJKLMNOPQRSTUVWXYZ'')"

definition isDigit :: "char \<Rightarrow> bool" where
  "isDigit c = (c \<in> set ''0123456789'')"

definition isWordChar :: "char \<Rightarrow> bool" where
  "isWordChar c =
     (c \<in> set ''ABCDEFGHIJKLMNOPQRSTUVWXYZabcdefghijklmnopqrstuvwxyz0123456789_'')"

definition isQuote :: "char \<Rightarrow> bool" where
  "isQuote c = (c = CHR 0x22 \<or> c = CHR 0x27)"

datatype tok =
    Lit string     \<comment> \<open>literal text\<close>
  | Spaces1        \<comment> \<open>\<open>\s+\<close>\<close>
  | Spaces0        \<comment> \<open>\<open>\s*\<close>\<close>
  | Words1         \<comment> \<open>\<open>\w+\<close>\<close>
  | Quote          \<comment> \<open>\<open>["']\<close>\<close>
  | QuoteOpt       \<comment> \<open>\<open>["']?\<close>\<close>
  | UpperN nat     \<comment> \<open>\<open>[A-Z]{n}\<close>\<close>
  | DigitN nat     \<comment> \<open>\<open>\d{n}\<close>\<close>

text \<open>The text left after the token's match at the start of \<open>s\<close>; \<open>None\<close>: no match.\<close>

fun matchTok :: "tok \<Rightarrow> string \<Rightarrow> string option" where
  "matchTok (Lit p) s = (if startsWith s p then Some (drop (length p) s) else None)"
| "matchTok Spaces1 [] = None"
| "matchTok Spaces1 (c # cs) = (if isSpace c then Some (dropWhile isSpace cs) else None)"
| "matchTok Spaces0 s = Some (dropWhile isSpace s)"
| "matchTok Words1 [] = None"
| "matchTok Words1 (c # cs) = (if isWordChar c then Some (dropWhile isWordChar cs) else None)"
| "matchTok Quote [] = None"
| "matchTok Quote (c # cs) = (if isQuote c then Some cs else None)"
| "matchTok QuoteOpt [] = Some []"
| "matchTok QuoteOpt (c # cs) = (if isQuote c then Some cs else Some (c # cs))"
| "matchTok (UpperN n) s =
     (if n \<le> length s \<and> list_all isUpperAZ (take n s) then Some (drop n s) else None)"
| "matchTok (DigitN n) s =
     (if n \<le> length s \<and> list_all isDigit (take n s) then Some (drop n s) else None)"

fun matchAt :: "tok list \<Rightarrow> string \<Rightarrow> string option" where
  "matchAt [] s = Some s"
| "matchAt (t # ts) s = (case matchTok t s of None \<Rightarrow> None | Some r \<Rightarrow> matchAt ts r)"

text \<open>\<open>RegExp.prototype.test\<close> of an expression without anchors: a match at some position.\<close>

fun regexTest :: "tok list \<Rightarrow> string \<Rightarrow> bool" where
  "regexTest p [] = (matchAt p [] \<noteq> None)"
| "regexTest p (c # cs) = (matchAt p (c # cs) \<noteq> None \<or> regexTest p cs)"

text \<open>
  The same with the flag \<open>i\<close>. The expressions of the source that carry the flag are
  written in upper case, and \<open>\s\<close>, \<open>\w\<close>, \<open>\d\<close> and the quotes do not depend on the
  case, so on ASCII text the match ignoring case is the match on the upper-cased text.
\<close>

definition regexTestI :: "tok list \<Rightarrow> string \<Rightarrow> bool" where
  "regexTestI p s = regexTest p (toUpperCase s)"

text \<open>
  A word boundary \<open>\b\<close> lies between a word character and a character that is none
  (or an end of the text). \<open>wordAt t prev s\<close>: \<open>\bt\b\<close> matches at the start of \<open>s\<close>,
  where \<open>prev\<close> is the character before \<open>s\<close>. The table name \<open>t\<close> is spliced into the
  expression as it is; the model reads it as literal text, which is what the expression
  does for a name without characters that are special in a regular expression.
\<close>

fun isWordOpt :: "char option \<Rightarrow> bool" where
  "isWordOpt None = False"
| "isWordOpt (Some c) = isWordChar c"

fun headOpt :: "string \<Rightarrow> char option" where
  "headOpt [] = None"
| "headOpt (c # cs) = Some c"

definition wordAt :: "string \<Rightarrow> char option \<Rightarrow> string \<Rightarrow> bool" where
  "wordAt t prev s =
     (startsWith s t \<and>
      isWordOpt prev \<noteq> isWordOpt (headOpt s) \<and>
      isWordOpt (if t = [] then prev else Some (last t)) \<noteq> isWordOpt (headOpt (drop (length t) s)))"

fun wordTest :: "string \<Rightarrow> char option \<Rightarrow> string \<Rightarrow> bool" where
  "wordTest t prev [] = wordAt t prev []"
| "wordTest t prev (c # cs) = (wordAt t prev (c # cs) \<or> wordTest t (Some c) cs)"

text \<open>
  \<open>(s.match(/\bt\b/g) || []).length\<close>: the matches are taken from left to right, the
  search going on behind each match (\<open>skip\<close> characters of a match are still to be
  passed), or one character further after an empty match.
\<close>

fun wordCount :: "string \<Rightarrow> nat \<Rightarrow> char option \<Rightarrow> string \<Rightarrow> nat" where
  "wordCount t skip prev [] = (if skip = 0 \<and> wordAt t prev [] then 1 else 0)"
| "wordCount t skip prev (c # cs) =
     (if 0 < skip then wordCount t (skip - 1) (Some c) cs
      else if wordAt t prev (c # cs) then 1 + wordCount t (length t - 1) (Some c) cs
      else wordCount t 0 (Some c) cs)"

text \<open>\<open>String.prototype.split\<close> on one character (the result always has a first piece,
  so \<open>hd\<close> and \<open>tl\<close> are applied to a non-empty list), and \<open>Array.prototype.join\<close>.\<close>

fun splitOn :: "char \<Rightarrow> string \<Rightarrow> string list" where
  "splitOn d [] = [[]]"
| "splitOn d (c # cs) =
     (let r = splitOn d cs in if c = d then [] # r else (c # hd r) # tl r)"

fun joinWith :: "string \<Rightarrow> string list \<Rightarrow> string" where
  "joinWith sep [] = []"
| "joinWith sep [x] = x"
| "joinWith sep (x # y # zs) = x @ sep @ joinWith sep (y # zs)"

section \<open>The file system and paths\<close>

text \<open>
  The tool only reads the file system: \<open>readdir\<close> lists a directory (\<open>None\<close>: the call
  throws), \<open>readFile\<close> gives a file's text (\<open>None\<close>: the call throws), \<open>access\<close> tells
  whether \<open>fs.access\<close> succeeds. Paths are POSIX paths; \<open>path.join\<close> is applied to a
  directory and one entry name only.
\<close>

datatype entry_kind = IsDirectory | IsFile | IsOther

datatype dirent = Dirent (name: string) (kind: entry_kind)

record file_system =
  readdir :: "string \<Rightarrow> dirent list option"
  readFile :: "string \<Rightarrow> string option"
  access :: "string \<Rightarrow> bool"

definition pathJoin :: "string \<Rightarrow> string \<Rightarrow> string" where
  "pathJoin dir entry = (if entry = [] then dir else dir @ ''/'' @ entry)"

definition basename :: "string \<Rightarrow> string" where
  "basename p = rev (takeWhile (\<lambda>c. c \<noteq> CHR ''/'') (rev p))"

definition extname :: "string \<Rightarrow> string" where
  "extname p =
     (let b = basename p; e = rev (takeWhile (\<lambda>c. c \<noteq> CHR ''.'') (rev b))
      in if CHR ''.'' \<in> set b \<and> length e + 1 < length b \<and> b \<noteq> ''..'' then CHR ''.'' # e
         else [])"

text \<open>\<open>path.basename(file, path.extname(file))\<close>\<close>

definition basenameNoExt :: "string \<Rightarrow> string" where
  "basenameNoExt p = take (length (basename p) - length (extname p)) (basename p)"

section \<open>FileIndexer: \<open>getAllFilesRecursive\<close> (lines 595--637)\<close>

definition ignoreDirs :: "string list" where
  "ignoreDirs = [''node_modules'', ''.git'', ''bin'', ''obj'', ''backup'']"

definition sourceExtensions :: "string list" where
  "sourceExtensions = [''.prw'', ''.tlpp'', ''.prx'']"

function getAllFilesRecursive ::
  "file_system \<Rightarrow> string \<Rightarrow> string list \<Rightarrow> nat \<Rightarrow> nat \<Rightarrow> string list" where
  "getAllFilesRecursive fs dir exts maxDepth currentDepth =
     (if maxDepth < currentDepth then []
      else
        case readdir fs dir of
          None \<Rightarrow> []
        | Some entries \<Rightarrow>
            concat (map (\<lambda>entry.
              let fullPath = pathJoin dir (name entry) in
              case kind entry of
                IsDirectory \<Rightarrow>
                  if toLowerCase (name entry) \<in> set ignoreDirs then []
                  else getAllFilesRecursive fs fullPath exts maxDepth (currentDepth + 1)
              | IsFile \<Rightarrow>
                  if toLowerCase (extname (name entry)) \<in> set exts then [fullPath] else []
              | IsOther \<Rightarrow> []) entries))"
  by pat_completeness auto
termination
  by (relation "measure (\<lambda>(fs, dir, exts, maxDepth, currentDepth). Suc maxDepth - currentDepth)")
     auto

declare getAllFilesRecursive.simps [simp del]

section \<open>RoutineClassifier (lines 240--305 and 447--583)\<close>

definition KNOWN_STANDARD_PREFIXES :: "string list" where
  "KNOWN_STANDARD_PREFIXES =
     [''FATA'', ''FATC'', ''FATR'', ''FATM'',
      ''MATA'', ''MATC'', ''MATR'', ''MATM'',
      ''FINA'', ''FINC'', ''FINR'', ''FINM'', ''FINXFUN'',
      ''COMA'', ''COMC'', ''COMR'', ''COMM'',
      ''GPEA'', ''GPEC'', ''GPER'', ''GPEM'', ''GPEXFUN'',
      ''MNTA'', ''MNTC'', ''MNTR'', ''MNTM'',
      ''PCPA'', ''PCPC'', ''PCPR'', ''PCPM'',
      ''QIEA'', ''QIEC'', ''QIER'', ''QIEM'', ''QIEXFUN'',
      ''TECA'', ''TECC'', ''TECR'', ''TECM'', ''TECXFUN'',
      ''CRMA'', ''CRMC'', ''CRMR'', ''CRMM'',
      ''TMKA'', ''TMKC'', ''TMKR'', ''TMKM'',
      ''JURA'', ''JURC'', ''JURR'', ''JURM'',
      ''VEICA'', ''VEICC'', ''VEICR'',
      ''OFIA'', ''OFIC'', ''OFIR'', ''OFIM'',
      ''CTBA'', ''CTBC'', ''CTBR'', ''CTBM'', ''CTBXFUN'',
      ''ESTA'', ''ESTC'', ''ESTR'', ''ESTM'',
      ''LOJA'', ''LOJC'', ''LOJR'', ''LOJM'',
      ''PONA'', ''PONC'', ''PONR'', ''PONM'', ''PONXFUN'',
      ''FISA'', ''FISC'', ''FISR'', ''FISM'',
      ''FWMVC'', ''FWBROWSE'', ''FWFORM'',
      ''APCFG'', ''APWIZ'',
      ''CFGA'', ''CFGC'', ''CFGR'', ''CFGM'', ''CFGX'',
      ''BIXA'', ''BIXC'',
      ''AGRA'', ''AGRC'', ''AGRR'',
      ''OMSA'', ''OMSC'', ''OMSR'',
      ''WFFA'', ''WFFC'',
      ''EICA'', ''EICC'']"

text \<open>
  The two fields of the class, for the life of the process: the classification cache (a
  \<open>Map\<close> from the stripped, upper-cased name to the decision) and the set of discovered
  prefixes. Two counters are added for the claims about what is not done again:
  \<open>contentReads\<close> counts the files \<open>analyzeFileContent\<close> has tried to read, and
  \<open>discoveryRuns\<close> the runs of \<open>discoverStandardPrefixes\<close>. No decision of the code
  reads them.
\<close>

record tool_state =
  standardPrefixCache :: "string \<rightharpoonup> bool"
  discoveredPrefixes :: "string list"
  contentReads :: nat
  discoveryRuns :: nat

definition initialState :: tool_state where
  "initialState = \<lparr> standardPrefixCache = Map.empty, discoveredPrefixes = [],
                     contentReads = 0, discoveryRuns = 0 \<rparr>"

definition matchesKnownPrefix :: "tool_state \<Rightarrow> string \<Rightarrow> bool" where
  "matchesKnownPrefix s routineName =
     list_ex (\<lambda>prefix. startsWith routineName (toUpperCase prefix))
       (KNOWN_STANDARD_PREFIXES @ discoveredPrefixes s)"

definition customIndicators :: "tok list list" where
  "customIndicators =
     [[Lit ''USER'', Spaces1, Lit ''FUNCTION''],
      [Lit ''FUNCTION'', Spaces1, Lit ''U_''],
      [Lit ''STATIC'', Spaces1, Lit ''FUNCTION'', Spaces1, Lit ''U_'']]"

definition standardIndicators :: "tok list list" where
  "standardIndicators =
     [[Lit ''FUNCTION'', Spaces1, UpperN 4, DigitN 3],
      [Lit ''#INCLUDE'', Spaces1, Lit [CHR 0x22], Lit ''PROTHEUS.CH'', Lit [CHR 0x22]],
      [Lit ''#INCLUDE'', Spaces1, Lit [CHR 0x22], Lit ''RWMAKE.CH'', Lit [CHR 0x22]],
      [Lit ''STATIC'', Spaces1, Lit ''FUNCTION'', Spaces1, Lit ''MENU''],
      [Lit ''WSSERVICE'', Spaces1],
      [Lit ''WSRESTFUL'', Spaces1]]"

text \<open>Lines 512--513: the first 200 lines of the file, in upper case.\<close>

definition contentStr :: "string \<Rightarrow> string" where
  "contentStr content =
     toUpperCase (joinWith [CHR 0x0A] (take 200 (splitOn (CHR 0x0A) content)))"

text \<open>
  \<open>analyzeFileContent\<close>: the two loops return at the first indicator that matches; a
  failed read is caught and gives \<open>false\<close>.
\<close>

definition analyzeFileContent :: "file_system \<Rightarrow> string \<Rightarrow> tool_state \<Rightarrow> bool \<times> tool_state" where
  "analyzeFileContent fs path s =
     (let s' = s\<lparr> contentReads := contentReads s + 1 \<rparr> in
      case readFile fs path of
        None \<Rightarrow> (False, s')
      | Some content \<Rightarrow>
          if list_ex (\<lambda>indicator. regexTestI indicator (contentStr content)) customIndicators
          then (False, s')
          else if list_ex (\<lambda>indicator. regexTestI indicator (contentStr content))
                    standardIndicators
          then (True, s')
          else (True, s'))"

text \<open>\<open>routineName.toUpperCase().replace(/^U_/, '')\<close>, the key of the cache.\<close>

definition stripUPrefix :: "string \<Rightarrow> string" where
  "stripUPrefix routineName =
     (let u = toUpperCase routineName in if startsWith u ''U_'' then drop 2 u else u)"

text \<open>An optional string argument counts as given when it is present and not empty.\<close>

fun truthy :: "string option \<Rightarrow> bool" where
  "truthy None = False"
| "truthy (Some v) = (v \<noteq> [])"

definition isStandardRoutine ::
  "file_system \<Rightarrow> string \<Rightarrow> string option \<Rightarrow> tool_state \<Rightarrow> bool \<times> tool_state" where
  "isStandardRoutine fs routineName filePath s =
     (let upperName = stripUPrefix routineName in
      case standardPrefixCache s upperName of
        Some cached \<Rightarrow> (cached, s)
      | None \<Rightarrow>
          let (isStandard, s1) =
                (if startsWith (toUpperCase routineName) ''U_'' then (False, s)
                 else if matchesKnownPrefix s upperName then (True, s)
                 else if truthy filePath then analyzeFileContent fs (the filePath) s
                 else if matchAt [UpperN 4, DigitN 3] upperName \<noteq> None then (True, s)
                 else (False, s))
          in (isStandard,
              s1\<lparr> standardPrefixCache := (standardPrefixCache s1)(upperName \<mapsto> isStandard) \<rparr>))"

text \<open>\<open>fileName.match(/^([A-Z]{3,4})/)\<close>: the first four letters when there are four,
  else the first three.\<close>

definition leadingPrefix :: "string \<Rightarrow> string option" where
  "leadingPrefix fileName =
     (if matchAt [UpperN 4] fileName \<noteq> None then Some (take 4 fileName)
      else if matchAt [UpperN 3] fileName \<noteq> None then Some (take 3 fileName)
      else None)"

text \<open>The body of the loop over the files of the vendor tree (lines 566--575).\<close>

definition discoverFile :: "file_system \<Rightarrow> tool_state \<Rightarrow> string \<Rightarrow> tool_state" where
  "discoverFile fs s path =
     (let fileName = basenameNoExt path;
          (isStandard, s1) = analyzeFileContent fs path s
      in if isStandard
         then (case leadingPrefix fileName of
                 Some p \<Rightarrow> s1\<lparr> discoveredPrefixes := setAdd (discoveredPrefixes s1) p \<rparr>
               | None \<Rightarrow> s1)
         else s1)"

definition discoverStandardPrefixes :: "file_system \<Rightarrow> string \<Rightarrow> tool_state \<Rightarrow> tool_state" where
  "discoverStandardPrefixes fs repoPath s =
     foldl (discoverFile fs) (s\<lparr> discoveryRuns := discoveryRuns s + 1 \<rparr>)
       (getAllFilesRecursive fs repoPath sourceExtensions 5 0)"

section \<open>TableUsageAnalyzer (lines 728--913)\<close>

datatype usage_type = Browse | CRUD | Query | Report | Integration | Other

text \<open>
  The result of \<open>analyzeTableUsage\<close> and the row of the result list. The lists of the
  function names a file declares (\<open>userFunctions\<close>, \<open>staticFunctions\<close>) take no part in
  the selection, the order or the counts of the rows and are left out.
\<close>

record table_usage =
  usageType :: usage_type
  references :: nat
  hasBrowse :: bool
  hasInsert :: bool
  hasUpdate :: bool
  hasDelete :: bool

record table_search_result = table_usage +
  routine :: string
  "file" :: string
  filePath :: string

definition hasTableReference :: "string \<Rightarrow> string \<Rightarrow> bool" where
  "hasTableReference contentUpper tableUpper =
     (wordTest tableUpper None contentUpper \<or>
      regexTest [Lit ''DBSELECTAREA'', Spaces0, Lit ''('', Spaces0, Quote, Lit tableUpper, Quote]
        contentUpper \<or>
      regexTest [Lit ''('', Quote, Lit tableUpper, Quote, Lit '')''] contentUpper \<or>
      regexTest [Lit tableUpper, Lit ''->''] contentUpper)"

text \<open>\<open>/a.*b/s\<close>: \<open>a\<close> occurs, and \<open>b\<close> occurs behind it.\<close>

fun seqIncludes :: "string \<Rightarrow> string \<Rightarrow> string \<Rightarrow> bool" where
  "seqIncludes [] a b = (a = [] \<and> b = [])"
| "seqIncludes (c # cs) a b =
     ((startsWith (c # cs) a \<and> strIncludes (drop (length a) (c # cs)) b) \<or> seqIncludes cs a b)"

definition reclock :: "string \<Rightarrow> tok list" where
  "reclock flag =
     [Lit ''RECLOCK'', Spaces0, Lit ''('', Spaces0, QuoteOpt, Words1, QuoteOpt, Spaces0,
      Lit '','', Spaces0, Lit flag]"

definition analyzeTableUsage :: "string \<Rightarrow> string \<Rightarrow> table_usage" where
  "analyzeTableUsage content tableUpper =
     (let contentUpper = toUpperCase content;
          references = wordCount tableUpper 0 None contentUpper;
          hasBrowse = list_ex (strIncludes contentUpper)
                        [''MBROWSE'', ''FWMBROWSE'', ''FWMARKBROWSE'', ''MSSELECT''];
          hasInsert = (regexTestI (reclock ''.T.'') content \<or> strIncludes contentUpper ''DBAPPEND'');
          hasUpdate = regexTestI (reclock ''.F.'') content;
          hasDelete = (strIncludes contentUpper ''DBDELETE'' \<or>
                       seqIncludes contentUpper ''RECLOCK'' ''DBDELETE'');
          usageType =
            (if hasBrowse then Browse
             else if hasInsert \<or> hasUpdate \<or> hasDelete then CRUD
             else if strIncludes contentUpper ''TCQUERY'' \<or> strIncludes contentUpper ''SELECT ''
             then Query
             else if strIncludes contentUpper ''TMSPRINTER'' \<or> strIncludes contentUpper ''TREPORT''
             then Report
             else if strIncludes contentUpper ''WSSERVICE'' \<or> strIncludes contentUpper ''WSRESTFUL''
             then Integration
             else Other)
      in \<lparr> usageType = usageType, references = references, hasBrowse = hasBrowse,
            hasInsert = hasInsert, hasUpdate = hasUpdate, hasDelete = hasDelete \<rparr>)"

text \<open>
  The loop over the files (lines 744--791). A file that cannot be read is skipped (the
  \<open>catch\<close> inside the loop); a file without a reference to the table, and a standard
  routine when these are not asked for, is passed over; the loop is left when, after a
  row was added, the list has \<open>maxResults\<close> rows or more.
\<close>

fun searchLoop ::
  "file_system \<Rightarrow> string \<Rightarrow> bool \<Rightarrow> int \<Rightarrow> string list \<Rightarrow>
     table_search_result list \<Rightarrow> tool_state \<Rightarrow> table_search_result list \<times> tool_state" where
  "searchLoop fs tableUpper includeStandard maxResults [] rows s = (rows, s)"
| "searchLoop fs tableUpper includeStandard maxResults (path # rest) rows s =
     (case readFile fs path of
        None \<Rightarrow> searchLoop fs tableUpper includeStandard maxResults rest rows s
      | Some content \<Rightarrow>
          if \<not> hasTableReference (toUpperCase content) tableUpper
          then searchLoop fs tableUpper includeStandard maxResults rest rows s
          else
            let fileName = basenameNoExt path;
                (isStandard, s1) = isStandardRoutine fs fileName (Some path) s
            in if isStandard \<and> \<not> includeStandard
               then searchLoop fs tableUpper includeStandard maxResults rest rows s1
               else
                 let analysis = analyzeTableUsage content tableUpper;
                     rows1 = rows @
                       [\<lparr> usageType = usageType analysis, references = references analysis,
                           hasBrowse = hasBrowse analysis, hasInsert = hasInsert analysis,
                           hasUpdate = hasUpdate analysis, hasDelete = hasDelete analysis,
                           routine = fileName, file = basename path, filePath = path \<rparr>]
                 in if maxResults \<le> int (length rows1) then (rows1, s1)
                    else searchLoop fs tableUpper includeStandard maxResults rest rows1 s1)"

definition typeOrder :: "usage_type \<Rightarrow> int" where
  "typeOrder t =
     (case t of Browse \<Rightarrow> 1 | CRUD \<Rightarrow> 2 | Query \<Rightarrow> 3 | Report \<Rightarrow> 4 | Integration \<Rightarrow> 5
      | Other \<Rightarrow> 6)"

text \<open>The comparator of the sort (lines 794--801).\<close>

definition compareRows :: "table_search_result \<Rightarrow> table_search_result \<Rightarrow> int" where
  "compareRows a b =
     (let orderA = typeOrder (usageType a); orderB = typeOrder (usageType b)
      in if orderA \<noteq> orderB then orderA - orderB
         else int (references b) - int (references a))"

text \<open>
  \<open>Array.prototype.sort\<close> with a comparator is a stable sort: \<open>a\<close> stays before \<open>b\<close>
  unless the comparator puts \<open>b\<close> first. It is modelled as the stable insertion sort.
\<close>

fun insortBy :: "('a \<Rightarrow> 'a \<Rightarrow> int) \<Rightarrow> 'a \<Rightarrow> 'a list \<Rightarrow> 'a list" where
  "insortBy cmp x [] = [x]"
| "insortBy cmp x (y # ys) = (if cmp x y \<le> 0 then x # y # ys else y # insortBy cmp x ys)"

definition sortBy :: "('a \<Rightarrow> 'a \<Rightarrow> int) \<Rightarrow> 'a list \<Rightarrow> 'a list" where
  "sortBy cmp xs = foldr (insortBy cmp) xs []"

record table_summary =
  browseRoutines :: nat
  crudRoutines :: nat
  reportRoutines :: nat
  otherRoutines :: nat

record search_output =
  table :: string
  totalFound :: nat
  results :: "table_search_result list"
  summary :: table_summary

text \<open>
  \<open>executeSearchByTable\<close>, for a table name and a root that are strings: then nothing
  reaches the outer \<open>catch\<close> (the walk and the loop catch their own failures), and the
  result is the one with \<open>ok: true\<close>. \<open>maxResults\<close> is an integer.
\<close>

definition executeSearchByTable ::
  "file_system \<Rightarrow> string \<Rightarrow> string \<Rightarrow> bool \<Rightarrow> int \<Rightarrow> tool_state \<Rightarrow> search_output \<times> tool_state" where
  "executeSearchByTable fs tableName repoPath includeStandard maxResults s =
     (let tableUpper = toUpperCase tableName;
          allFiles = getAllFilesRecursive fs repoPath sourceExtensions 5 0;
          (found, s1) = searchLoop fs tableUpper includeStandard maxResults allFiles [] s;
          sorted = sortBy compareRows found
      in (\<lparr> table = tableName, totalFound = length sorted, results = sorted,
             summary = \<lparr> browseRoutines = length (filter (\<lambda>r. usageType r = Browse) sorted),
                         crudRoutines = length (filter (\<lambda>r. usageType r = CRUD) sorted),
                         reportRoutines = length (filter (\<lambda>r. usageType r = Report) sorted),
                         otherRoutines =
                           length (filter (\<lambda>r. usageType r \<notin> set [Browse, CRUD, Report]) sorted) \<rparr> \<rparr>,
          s1))"

section \<open>RoutineFinder and RepositoryLocator (lines 647--723)\<close>

definition findRoutineFile :: "file_system \<Rightarrow> string \<Rightarrow> normalized_routine \<Rightarrow> string option" where
  "findRoutineFile fs repoPath normalized =
     (case find (\<lambda>variation. access fs (pathJoin repoPath variation)) (variations normalized) of
        Some variation \<Rightarrow> Some (pathJoin repoPath variation)
      | None \<Rightarrow>
          find (\<lambda>path. list_ex (\<lambda>variation. toUpperCase (basename path) = toUpperCase variation)
                        (variations normalized))
            (getAllFilesRecursive fs repoPath sourceExtensions 3 0))"

definition envVarMap :: "(string \<times> string) list" where
  "envVarMap =
     [(''HML'', ''REPO_HML''), (''PRD'', ''REPO_PRD''), (''TOTVS'', ''REPO_TOTVS_STANDARD''),
      (''STANDARD'', ''REPO_TOTVS_STANDARD''), (''TOTVS_STANDARD'', ''REPO_TOTVS_STANDARD'')]"

text \<open>\<open>getRepoPath\<close>; the second argument is \<open>process.env\<close>.\<close>

definition getRepoPath :: "(string \<rightharpoonup> string) \<Rightarrow> string \<Rightarrow> error + string" where
  "getRepoPath penv env =
     (case map_of envVarMap (toUpperCase env) of
        None \<Rightarrow> Inl RepoNotConfigured
      | Some envVar \<Rightarrow>
          (case penv envVar of
             None \<Rightarrow> Inl RepoNotConfigured
           | Some repoPath \<Rightarrow> if repoPath = [] then Inl RepoNotConfigured else Inr repoPath))"

definition detectEnvironment :: "string \<Rightarrow> string" where
  "detectEnvironment routineName = (if startsWith routineName ''U_'' then ''HML'' else ''STANDARD'')"

section \<open>Orchestrator: \<open>execute\<close> (lines 1207--1455)\<close>

datatype action = Status | AnalyzeRoutine | RenderReportMarkdown | GetSourceCode | SearchByTable

text \<open>The parameters the orchestration reads; \<open>None\<close> is a parameter that is not given.\<close>

record params =
  routineParam :: "string option"
  actionParam :: "action option"
  envParam :: "string option"
  repoPathParam :: "string option"
  tableParam :: "string option"
  includeStandardParam :: "bool option"
  maxResultsParam :: "int option"

text \<open>The result of a lookup that found no file (lines 1374--1389).\<close>

record not_found =
  nfEnv :: string
  nfRepoPath :: string
  nfRoutine :: string
  nfMessage :: string
  debugNormalized :: normalized_routine
  debugIsStandard :: bool
  searchedPath :: string
  searchedVariations :: "string list"

text \<open>
  What \<open>execute\<close> returns. \<open>Located\<close> is the lookup that found its file (path,
  environment, root, classification): the action then runs on that file, in code outside
  the core. \<open>Unexpected\<close> is the result of the outer \<open>catch\<close>.
\<close>

datatype outcome =
    MissingTable
  | MissingRoutine
  | EnvNotConfigured string
  | StandardRepoNotConfigured
  | NotFound not_found
  | Located string string string bool
  | SearchDone search_output string string
  | Unexpected error

fun showNat :: "nat \<Rightarrow> string" where
  "showNat n =
     (if n < 10 then [''0123456789'' ! n]
      else showNat (n div 10) @ [''0123456789'' ! (n mod 10)])"

declare showNat.simps [simp del]

definition notFoundMessage :: "string \<Rightarrow> string \<Rightarrow> string \<Rightarrow> string list \<Rightarrow> string" where
  "notFoundMessage routineName finalEnv finalRepoPath vs =
     ''Rotina '' @ [CHR 0x22] @ routineName @ [CHR 0x22] @ '' nao encontrada em '' @ finalEnv @
       [CHR ''.'', CHR 0x0A, CHR 0x0A] @
     ''Caminho pesquisado: '' @ finalRepoPath @ [CHR 0x0A] @
     ''Variacoes procuradas:'' @ [CHR 0x0A] @
       joinWith [CHR 0x0A] (map (\<lambda>v. ''  - '' @ v) (take 10 vs)) @ [CHR 0x0A] @
     (if 10 < length vs then ''  ... e mais '' @ showNat (length vs - 10) @ '' variacoes''
      else [])"

text \<open>
  Lines 1300--1367: the root to search. A manual path is taken as it is. Otherwise the
  routine is classified; a standard routine is looked up in the vendor tree, and the
  discovery pass runs when the set of discovered prefixes is empty.
\<close>

definition resolveRepository ::
  "file_system \<Rightarrow> (string \<rightharpoonup> string) \<Rightarrow> string \<Rightarrow> string option \<Rightarrow> normalized_routine \<Rightarrow>
     tool_state \<Rightarrow> (outcome + string \<times> string \<times> bool) \<times> tool_state" where
  "resolveRepository fs penv env manualRepoPath normalized s =
     (if truthy manualRepoPath then (Inr (the manualRepoPath, ''MANUAL'', False), s)
      else
        let (isStandard, s1) = isStandardRoutine fs (baseNameUpper normalized) None s in
        if isStandard then
          (case getRepoPath penv ''STANDARD'' of
             Inl e \<Rightarrow> (Inl StandardRepoNotConfigured, s1)
           | Inr finalRepoPath \<Rightarrow>
               (Inr (finalRepoPath, ''STANDARD'', isStandard),
                if discoveredPrefixes s1 = [] then discoverStandardPrefixes fs finalRepoPath s1
                else s1))
        else
          let finalEnv =
                (if env = ''AUTO'' then detectEnvironment (baseNameUpper normalized) else env)
          in case getRepoPath penv finalEnv of
               Inl e \<Rightarrow> (Inl (EnvNotConfigured finalEnv), s1)
             | Inr finalRepoPath \<Rightarrow> (Inr (finalRepoPath, finalEnv, isStandard), s1))"

definition execute ::
  "file_system \<Rightarrow> (string \<rightharpoonup> string) \<Rightarrow> params \<Rightarrow> tool_state \<Rightarrow> outcome \<times> tool_state" where
  "execute fs penv ps s =
     (let env = (case envParam ps of None \<Rightarrow> ''AUTO'' | Some e \<Rightarrow> e);
          act = (case actionParam ps of None \<Rightarrow> RenderReportMarkdown | Some a \<Rightarrow> a);
          manualRepoPath = repoPathParam ps;
          includeStandard = (case includeStandardParam ps of None \<Rightarrow> False | Some b \<Rightarrow> b);
          maxResults = (case maxResultsParam ps of None \<Rightarrow> 50 | Some m \<Rightarrow> m)
      in
      if act = SearchByTable then
        (if \<not> truthy (tableParam ps) then (MissingTable, s)
         else if truthy manualRepoPath then
           (let (result, s1) = executeSearchByTable fs (the (tableParam ps)) (the manualRepoPath)
                                 includeStandard maxResults s
            in (SearchDone result ''MANUAL'' (the manualRepoPath), s1))
         else
           (let finalEnv = (if env = ''AUTO'' then ''HML'' else env) in
            case getRepoPath penv finalEnv of
              Inl e \<Rightarrow> (EnvNotConfigured finalEnv, s)
            | Inr finalRepoPath \<Rightarrow>
                (let (result, s1) = executeSearchByTable fs (the (tableParam ps)) finalRepoPath
                                      includeStandard maxResults s
                 in (SearchDone result finalEnv finalRepoPath, s1))))
      else if \<not> truthy (routineParam ps) then (MissingRoutine, s)
      else
        (case normalizeRoutineName (the (routineParam ps)) of
           Inl e \<Rightarrow> (Unexpected e, s)
         | Inr normalized \<Rightarrow>
             (case resolveRepository fs penv env manualRepoPath normalized s of
                (Inl failure, s1) \<Rightarrow> (failure, s1)
              | (Inr (finalRepoPath, finalEnv, isStandard), s1) \<Rightarrow>
                  (case findRoutineFile fs finalRepoPath normalized of
                     None \<Rightarrow>
                       (NotFound
                          \<lparr> nfEnv = finalEnv, nfRepoPath = finalRepoPath,
                            nfRoutine = the (routineParam ps),
                            nfMessage = notFoundMessage (the (routineParam ps)) finalEnv
                                          finalRepoPath (variations normalized),
                            debugNormalized = normalized, debugIsStandard = isStandard,
                            searchedPath = finalRepoPath,
                            searchedVariations = variations normalized \<rparr>, s1)
                   | Some path \<Rightarrow> (Located path finalEnv finalRepoPath isStandard, s1)))))"

section \<open>The life of the process\<close>

text \<open>
  The state changes only through \<open>execute\<close>, which reaches the classifier and the
  discovery pass; the file system and the environment may differ from call to call.
  \<open>runCalls\<close> is any stretch of the process between two moments.
\<close>

datatype call =
    Classify file_system string "string option"
  | Discover file_system string
  | Execute file_system "string \<rightharpoonup> string" params

fun runCall :: "call \<Rightarrow> tool_state \<Rightarrow> tool_state" where
  "runCall (Classify fs routineName path) s = snd (isStandardRoutine fs routineName path s)"
| "runCall (Discover fs repoPath) s = discoverStandardPrefixes fs repoPath s"
| "runCall (Execute fs penv ps) s = snd (execute fs penv ps s)"

definition runCalls :: "call list \<Rightarrow> tool_state \<Rightarrow> tool_state" where
  "runCalls calls s = foldl (\<lambda>st c. runCall c st) s calls"


section \<open>An example repository\<close>

text \<open>
  A customer tree \<open>/hml\<close> with three routines that use the table PD3 (an insert, a
  browse, an update), and a vendor tree \<open>/totvs\<close> whose one file has a lower-case name.
\<close>

definition pda001 :: string where
  "pda001 = ''User Function PDA001()'' @ [CHR 0x0A] @
            ''DbSelectArea(\"PD3\")'' @ [CHR 0x0A] @
            ''RecLock(\"PD3\", .T.)'' @ [CHR 0x0A] @
            ''Return''"

definition pda002 :: string where
  "pda002 = ''User Function PDA002()'' @ [CHR 0x0A] @
            ''mBrowse(6, 1, 22, 75, \"PD3\")'' @ [CHR 0x0A] @
            ''Return''"

definition pda003 :: string where
  "pda003 = ''User Function PDA003()'' @ [CHR 0x0A] @
            ''RecLock(\"PD3\", .F.)'' @ [CHR 0x0A] @
            ''PD3->PD3_VALOR := 0'' @ [CHR 0x0A] @
            ''PD3->(MsUnlock())'' @ [CHR 0x0A] @
            ''Return''"

definition mata010 :: string where
  "mata010 = ''#include \"protheus.ch\"'' @ [CHR 0x0A] @
             ''Function MATA010()'' @ [CHR 0x0A] @
             ''Return''"

definition exampleFs :: file_system where
  "exampleFs =
     \<lparr> readdir = map_of
         [(''/hml'', [Dirent ''.git'' IsDirectory, Dirent ''PDA001.prw'' IsFile,
                      Dirent ''PDA002.prw'' IsFile, Dirent ''PDA003.prw'' IsFile,
                      Dirent ''README.md'' IsFile]),
          (''/totvs'', [Dirent ''mata010.prw'' IsFile])],
       readFile = map_of
         [(''/hml/PDA001.prw'', pda001), (''/hml/PDA002.prw'', pda002),
          (''/hml/PDA003.prw'', pda003), (''/totvs/mata010.prw'', mata010)],
       access = (\<lambda>p. p \<in> set [''/hml'', ''/hml/.git'', ''/hml/PDA001.prw'', ''/hml/PDA002.prw'',
                                ''/hml/PDA003.prw'', ''/hml/README.md'', ''/totvs'',
                                ''/totvs/mata010.prw'']) \<rparr>"

text \<open>A file system in which every path reads as the given text, and a text whose only
  custom marker stands on line 201.\<close>

definition oneFile :: "string \<Rightarrow> file_system" where
  "oneFile content = \<lparr> readdir = (\<lambda>d. None), readFile = (\<lambda>p. Some content), access = (\<lambda>p. True) \<rparr>"

definition lateMarker :: string where
  "lateMarker = replicate 200 (CHR 0x0A) @ ''User Function LATE()''"

definition exampleEnv :: "string \<rightharpoonup> string" where
  "exampleEnv = map_of [(''REPO_HML'', ''/hml''), (''REPO_TOTVS_STANDARD'', ''/totvs'')]"

definition lookup :: "string \<Rightarrow> params" where
  "lookup routineName =
     \<lparr> routineParam = Some routineName, actionParam = None, envParam = None,
       repoPathParam = None, tableParam = None, includeStandardParam = None,
       maxResultsParam = None \<rparr>"

section \<open>Properties of the NameResolver\<close>

lemma set_foldl_setAdd: "set (foldl setAdd acc xs) = set acc \<union> set xs"
  by (induction xs arbitrary: acc) (auto simp: setAdd_def)

lemma distinct_foldl_setAdd: "distinct acc \<Longrightarrow> distinct (foldl setAdd acc xs)"
  by (induction xs arbitrary: acc) (auto simp: setAdd_def)

lemma set_newSet: "set (newSet xs) = set xs"
  by (simp add: newSet_def set_foldl_setAdd)

lemma distinct_newSet: "distinct (newSet xs)"
  by (simp add: newSet_def distinct_foldl_setAdd)

lemma newSet_eq_Nil: "newSet xs = [] \<longleftrightarrow> xs = []"
  using set_newSet [of xs] by (metis set_empty)

lemma trim_eq_Nil: "(trim s = []) = list_all isSpace s"
proof -
  have "(\<forall>x\<in>set (dropWhile isSpace s). isSpace x) = (\<forall>x\<in>set s. isSpace x)"
  proof
    assume all: "\<forall>x\<in>set (dropWhile isSpace s). isSpace x"
    have "dropWhile isSpace s = []"
    proof (rule ccontr)
      assume ne: "dropWhile isSpace s \<noteq> []"
      then have "\<not> isSpace (hd (dropWhile isSpace s))"
        by (rule hd_dropWhile)
      with all ne show False
        by (simp add: hd_in_set)
    qed
    then show "\<forall>x\<in>set s. isSpace x"
      by (simp add: dropWhile_eq_Nil_conv)
  next
    assume "\<forall>x\<in>set s. isSpace x"
    then show "\<forall>x\<in>set (dropWhile isSpace s). isSpace x"
      using set_dropWhileD by fastforce
  qed
  then show ?thesis
    by (simp add: trim_def dropWhile_eq_Nil_conv list_all_iff)
qed

text \<open>
  Claim C5, as the code has it. The name is trimmed first, and \<open>trim\<close> leaves nothing
  exactly when every character of the name is white space. A name that is non-empty
  after trimming has a variation list, which is non-empty and free of duplicates;
  \<open>normalizeRoutineName\<close> reads nothing but its argument, so it is a function of the name
  alone and any two calls agree. A name that is not empty but holds white space only is
  refused (\<open>Nome da rotina nao pode ser vazio\<close>), and so is the empty name
  (\<open>Nome da rotina invalido\<close>). For \<open>U_PCMCTF43.prw\<close> the base name is
  \<open>U_PCMCTF43\<close>, the stripped form \<open>PCMCTF43\<close>, and \<open>PCMCTF43.prw\<close> and
  \<open>U_PCMCTF43.PRW\<close> are among the variations.
\<close>

theorem normalizeRoutineName_variations:
  "(trim name0 = []) = list_all isSpace name0 \<and>
   (trim name0 \<noteq> [] \<longrightarrow>
      (\<exists>n. normalizeRoutineName name0 = Inr n \<and> variations n \<noteq> [] \<and>
           distinct (variations n) \<and>
           (\<forall>m. normalizeRoutineName name0 = Inr m \<longrightarrow> variations m = variations n))) \<and>
   (name0 \<noteq> [] \<and> trim name0 = [] \<longrightarrow> normalizeRoutineName name0 = Inl EmptyRoutineName) \<and>
   (name0 = [] \<longrightarrow> normalizeRoutineName name0 = Inl InvalidRoutineName) \<and>
   (\<exists>n. normalizeRoutineName ''U_PCMCTF43.prw'' = Inr n \<and>
        baseName n = ''U_PCMCTF43'' \<and> withoutPrefix n = ''PCMCTF43'' \<and>
        ''PCMCTF43.prw'' \<in> set (variations n) \<and> ''U_PCMCTF43.PRW'' \<in> set (variations n))"
proof (intro conjI impI)
  show "(trim name0 = []) = list_all isSpace name0"
    by (rule trim_eq_Nil)
next
  assume ne: "trim name0 \<noteq> []"
  then have "name0 \<noteq> []"
    by (auto simp: trim_def)
  with ne show "\<exists>n. normalizeRoutineName name0 = Inr n \<and> variations n \<noteq> [] \<and>
      distinct (variations n) \<and>
      (\<forall>m. normalizeRoutineName name0 = Inr m \<longrightarrow> variations m = variations n)"
    by (simp add: normalizeRoutineName_def Let_def distinct_newSet newSet_eq_Nil)
next
  assume "name0 \<noteq> [] \<and> trim name0 = []"
  then show "normalizeRoutineName name0 = Inl EmptyRoutineName"
    by (simp add: normalizeRoutineName_def)
next
  assume "name0 = []"
  then show "normalizeRoutineName name0 = Inl InvalidRoutineName"
    by (simp add: normalizeRoutineName_def)
next
  show "\<exists>n. normalizeRoutineName ''U_PCMCTF43.prw'' = Inr n \<and>
        baseName n = ''U_PCMCTF43'' \<and> withoutPrefix n = ''PCMCTF43'' \<and>
        ''PCMCTF43.prw'' \<in> set (variations n) \<and> ''U_PCMCTF43.PRW'' \<in> set (variations n)"
    by (simp add: normalizeRoutineName_def Let_def set_newSet trim_def isSpace_def
        stripExtension_def endsWith_def startsWith_def toUpperCase_def toUpperChar_def
        extensions_def)
qed

theorem normalizeRoutineName_variations_witness:
  "trim ''MATA010'' \<noteq> [] \<and>
   (\<exists>n. normalizeRoutineName ''MATA010'' = Inr n \<and> variations n \<noteq> [] \<and>
        distinct (variations n)) \<and>
   [CHR 0xA0, CHR 0x09] \<noteq> [] \<and> trim [CHR 0xA0, CHR 0x09] = [] \<and>
   normalizeRoutineName [CHR 0xA0, CHR 0x09] = Inl EmptyRoutineName \<and>
   normalizeRoutineName [] = Inl InvalidRoutineName"
  using normalizeRoutineName_variations [of "''MATA010''"]
    normalizeRoutineName_variations [of "[CHR 0xA0, CHR 0x09]"]
    normalizeRoutineName_variations [of "[]"]
  by (auto simp: trim_def isSpace_def)

theorem normalizeRoutineName_blank_counterexample:
  "'' '' \<noteq> [] \<and> normalizeRoutineName '' '' = Inl EmptyRoutineName"
  by (simp add: normalizeRoutineName_def trim_def isSpace_def)



section \<open>Properties of the table reference test\<close>










section \<open>Properties of the classifier\<close>

text \<open>
  Claim C8. \<open>analyzeFileContent\<close> answers \<open>false\<close> (custom) for a file that cannot be
  read, and returns normally. For a file that is read, the indicators are tested on the
  first 200 lines in upper case (\<open>contentStr\<close>): when a custom indicator matches the
  answer is \<open>false\<close>, whatever the standard indicators say; when none matches and a
  standard indicator matches the answer is \<open>true\<close>; when no indicator matches at all
  the answer is \<open>true\<close>. Two files with the same first 200 lines get the same answer.
\<close>

theorem analyzeFileContent_rules:
  "(readFile fs path = None \<longrightarrow> fst (analyzeFileContent fs path s) = False) \<and>
   (readFile fs path = Some content \<and>
    list_ex (\<lambda>indicator. regexTestI indicator (contentStr content)) customIndicators \<longrightarrow>
      fst (analyzeFileContent fs path s) = False) \<and>
   (readFile fs path = Some content \<and>
    \<not> list_ex (\<lambda>indicator. regexTestI indicator (contentStr content)) customIndicators \<and>
    list_ex (\<lambda>indicator. regexTestI indicator (contentStr content)) standardIndicators \<longrightarrow>
      fst (analyzeFileContent fs path s) = True) \<and>
   (readFile fs path = Some content \<and>
    \<not> list_ex (\<lambda>indicator. regexTestI indicator (contentStr content)) customIndicators \<and>
    \<not> list_ex (\<lambda>indicator. regexTestI indicator (contentStr content)) standardIndicators \<longrightarrow>
      fst (analyzeFileContent fs path s) = True) \<and>
   (readFile fs path = Some content \<and> readFile fs' path' = Some content' \<and>
    take 200 (splitOn (CHR 0x0A) content) = take 200 (splitOn (CHR 0x0A) content') \<longrightarrow>
      fst (analyzeFileContent fs path s) = fst (analyzeFileContent fs' path' s'))"
  by (auto simp: analyzeFileContent_def Let_def contentStr_def)

lemma example_reads:
  "readFile exampleFs ''/hml/missing.prw'' = None"
  "readFile exampleFs ''/hml/PDA001.prw'' = Some pda001"
  "readFile exampleFs ''/totvs/mata010.prw'' = Some mata010"
  by (simp_all add: exampleFs_def)

lemma example_indicators:
  "list_ex (\<lambda>indicator. regexTestI indicator (contentStr pda001)) customIndicators"
  "\<not> list_ex (\<lambda>indicator. regexTestI indicator (contentStr mata010)) customIndicators"
  "list_ex (\<lambda>indicator. regexTestI indicator (contentStr mata010)) standardIndicators"
  by code_simp+

lemma lateMarker_lines:
  "take 200 (splitOn (CHR 0x0A) lateMarker) = take 200 (splitOn (CHR 0x0A) (replicate 200 (CHR 0x0A)))"
  by code_simp

theorem analyzeFileContent_rules_witness:
  "fst (analyzeFileContent exampleFs ''/hml/missing.prw'' initialState) = False \<and>
   fst (analyzeFileContent exampleFs ''/hml/PDA001.prw'' initialState) = False \<and>
   fst (analyzeFileContent exampleFs ''/totvs/mata010.prw'' initialState) = True \<and>
   fst (analyzeFileContent (oneFile lateMarker) ''late.prw'' initialState) =
   fst (analyzeFileContent (oneFile (replicate 200 (CHR 0x0A))) ''empty.prw'' initialState)"
proof (intro conjI)
  show "fst (analyzeFileContent exampleFs ''/hml/missing.prw'' initialState) = False"
    using analyzeFileContent_rules [of exampleFs "''/hml/missing.prw''" initialState]
      example_reads(1) by simp
  show "fst (analyzeFileContent exampleFs ''/hml/PDA001.prw'' initialState) = False"
    using analyzeFileContent_rules [of exampleFs "''/hml/PDA001.prw''" initialState pda001]
      example_reads(2) example_indicators(1) by simp
  show "fst (analyzeFileContent exampleFs ''/totvs/mata010.prw'' initialState) = True"
    using analyzeFileContent_rules [of exampleFs "''/totvs/mata010.prw''" initialState mata010]
      example_reads(3) example_indicators(2,3) by simp
  show "fst (analyzeFileContent (oneFile lateMarker) ''late.prw'' initialState) =
        fst (analyzeFileContent (oneFile (replicate 200 (CHR 0x0A))) ''empty.prw'' initialState)"
    using analyzeFileContent_rules [of "oneFile lateMarker" "''late.prw''" initialState lateMarker
        "oneFile (replicate 200 (CHR 0x0A))" "''empty.prw''" "replicate 200 (CHR 0x0A)" initialState]
      lateMarker_lines by (simp add: oneFile_def)
qed

lemma isStandardRoutine_U_prefix_fresh:
  "startsWith (toUpperCase routineName) ''U_'' \<Longrightarrow>
   standardPrefixCache s (stripUPrefix routineName) = None \<Longrightarrow>
   fst (isStandardRoutine fs routineName path s) = False"
  by (simp add: isStandardRoutine_def Let_def)


text \<open>
  Claim C1, at the input where the code departs from it. The cache is looked up under the
  name without \<open>U_\<close> before the prefix is tested, so once \<open>MATA010\<close> has been classified
  (standard, by its prefix \<open>MATA\<close>), the name \<open>U_MATA010\<close> finds that entry and is
  answered \<open>true\<close>, whatever file is supplied.
\<close>

theorem isStandardRoutine_U_prefix_cached:
  "fst (isStandardRoutine fs ''MATA010'' None initialState) = True \<and>
   fst (isStandardRoutine fs ''U_MATA010'' path
          (snd (isStandardRoutine fs ''MATA010'' None initialState))) = True"
  by (simp add: isStandardRoutine_def Let_def initialState_def stripUPrefix_def
      toUpperCase_def toUpperChar_def startsWith_def matchesKnownPrefix_def
      KNOWN_STANDARD_PREFIXES_def)


lemma cache_analyzeFileContent:
  "standardPrefixCache (snd (analyzeFileContent fs path s)) = standardPrefixCache s"
  by (simp add: analyzeFileContent_def Let_def split: option.splits)

lemma isStandardRoutine_stores:
  "isStandardRoutine fs routineName path s = (b, s1) \<Longrightarrow>
   standardPrefixCache s1 (stripUPrefix routineName) = Some b"
  by (auto simp: isStandardRoutine_def Let_def split: option.splits prod.splits)

lemma isStandardRoutine_hit:
  "standardPrefixCache s (stripUPrefix routineName) = Some b \<Longrightarrow>
   isStandardRoutine fs routineName path s = (b, s)"
  by (simp add: isStandardRoutine_def Let_def)

lemma cache_isStandardRoutine:
  "standardPrefixCache s \<subseteq>\<^sub>m standardPrefixCache (snd (isStandardRoutine fs routineName path s))"
proof (cases "standardPrefixCache s (stripUPrefix routineName)")
  case (Some b)
  then show ?thesis by (simp add: isStandardRoutine_def Let_def)
next
  case None
  define inner where "inner =
    (if startsWith (toUpperCase routineName) ''U_'' then (False, s)
     else if matchesKnownPrefix s (stripUPrefix routineName) then (True, s)
     else if truthy path then analyzeFileContent fs (the path) s
     else if matchAt [UpperN 4, DigitN 3] (stripUPrefix routineName) \<noteq> None then (True, s)
     else (False, s))"
  have same: "standardPrefixCache (snd inner) = standardPrefixCache s"
    by (simp add: inner_def cache_analyzeFileContent)
  have "snd (isStandardRoutine fs routineName path s) =
        (snd inner)\<lparr> standardPrefixCache :=
           (standardPrefixCache (snd inner))(stripUPrefix routineName \<mapsto> fst inner) \<rparr>"
    using None by (simp add: isStandardRoutine_def Let_def inner_def [symmetric] split: prod.splits)
  then show ?thesis
    using None by (simp add: same map_le_def dom_def)
qed

lemma cache_discoverFile: "standardPrefixCache (discoverFile fs s path) = standardPrefixCache s"
proof -
  obtain b s1 where a: "analyzeFileContent fs path s = (b, s1)"
    by (cases "analyzeFileContent fs path s")
  then have "standardPrefixCache s1 = standardPrefixCache s"
    using cache_analyzeFileContent [of fs path s] by simp
  then show ?thesis
    by (simp add: discoverFile_def Let_def a split: option.splits)
qed

lemma cache_foldl_discoverFile:
  "standardPrefixCache (foldl (discoverFile fs) s files) = standardPrefixCache s"
  by (induction files arbitrary: s) (simp_all add: cache_discoverFile)

lemma cache_discoverStandardPrefixes:
  "standardPrefixCache (discoverStandardPrefixes fs repoPath s) = standardPrefixCache s"
  by (simp add: discoverStandardPrefixes_def cache_foldl_discoverFile)

lemma cache_searchLoop:
  "standardPrefixCache s \<subseteq>\<^sub>m
   standardPrefixCache (snd (searchLoop fs tableUpper includeStandard maxResults files rows s))"
proof (induction files arbitrary: rows s)
  case Nil
  then show ?case by simp
next
  case (Cons f files)
  obtain b s1 where cls: "isStandardRoutine fs (basenameNoExt f) (Some f) s = (b, s1)"
    by (cases "isStandardRoutine fs (basenameNoExt f) (Some f) s")
  then have le1: "standardPrefixCache s \<subseteq>\<^sub>m standardPrefixCache s1"
    using cache_isStandardRoutine [of s fs "basenameNoExt f" "Some f"] by simp
  have le2: "\<And>rows'. standardPrefixCache s \<subseteq>\<^sub>m
      standardPrefixCache (snd (searchLoop fs tableUpper includeStandard maxResults files rows' s1))"
    using le1 Cons.IH map_le_trans by blast
  show ?case
  proof (cases "readFile fs f")
    case None
    then show ?thesis by (simp add: Cons.IH)
  next
    case (Some content)
    show ?thesis
    proof (cases "hasTableReference (toUpperCase content) tableUpper")
      case False
      then show ?thesis by (simp add: Some Cons.IH)
    next
      case True
      show ?thesis
      proof (cases "b \<and> \<not> includeStandard")
        case skip: True
        have "searchLoop fs tableUpper includeStandard maxResults (f # files) rows s =
              searchLoop fs tableUpper includeStandard maxResults files rows s1"
          using Some True skip by (simp add: cls Let_def)
        then show ?thesis by (simp only: le2)
      next
        case keep: False
        define rows1 where "rows1 = rows @
            [\<lparr> usageType = usageType (analyzeTableUsage content tableUpper),
                references = references (analyzeTableUsage content tableUpper),
                hasBrowse = hasBrowse (analyzeTableUsage content tableUpper),
                hasInsert = hasInsert (analyzeTableUsage content tableUpper),
                hasUpdate = hasUpdate (analyzeTableUsage content tableUpper),
                hasDelete = hasDelete (analyzeTableUsage content tableUpper),
                routine = basenameNoExt f, file = basename f, filePath = f \<rparr>]"
        have "searchLoop fs tableUpper includeStandard maxResults (f # files) rows s =
              (if maxResults \<le> int (length rows1) then (rows1, s1)
               else searchLoop fs tableUpper includeStandard maxResults files rows1 s1)"
          using Some True keep by (auto simp: cls Let_def rows1_def)
        then show ?thesis
          using le1 le2 [of rows1] by (cases "maxResults \<le> int (length rows1)") simp_all
      qed
    qed
  qed
qed

lemma cache_executeSearchByTable:
  "standardPrefixCache s \<subseteq>\<^sub>m
   standardPrefixCache (snd (executeSearchByTable fs tableName repoPath includeStandard maxResults s))"
proof -
  obtain found s1 where loop:
    "searchLoop fs (toUpperCase tableName) includeStandard maxResults
       (getAllFilesRecursive fs repoPath sourceExtensions 5 0) [] s = (found, s1)"
    by (cases "searchLoop fs (toUpperCase tableName) includeStandard maxResults
       (getAllFilesRecursive fs repoPath sourceExtensions 5 0) [] s")
  then have "standardPrefixCache s \<subseteq>\<^sub>m standardPrefixCache s1"
    using cache_searchLoop [of s fs "toUpperCase tableName" includeStandard maxResults
      "getAllFilesRecursive fs repoPath sourceExtensions 5 0" "[]"] by simp
  then show ?thesis
    by (simp add: executeSearchByTable_def Let_def loop)
qed

lemma cache_resolveRepository:
  "standardPrefixCache s \<subseteq>\<^sub>m
   standardPrefixCache (snd (resolveRepository fs penv env manualRepoPath normalized s))"
proof (cases "truthy manualRepoPath")
  case True
  then show ?thesis by (simp add: resolveRepository_def)
next
  case False
  obtain b s1 where cls: "isStandardRoutine fs (baseNameUpper normalized) None s = (b, s1)"
    by (cases "isStandardRoutine fs (baseNameUpper normalized) None s")
  then have le1: "standardPrefixCache s \<subseteq>\<^sub>m standardPrefixCache s1"
    using cache_isStandardRoutine [of s fs "baseNameUpper normalized" None] by simp
  show ?thesis
    using False le1
    by (simp add: resolveRepository_def cls Let_def cache_discoverStandardPrefixes
        split: sum.splits)
qed

lemma cache_execute:
  "standardPrefixCache s \<subseteq>\<^sub>m standardPrefixCache (snd (execute fs penv ps s))"
proof -
  define env where "env = (case envParam ps of None \<Rightarrow> ''AUTO'' | Some e \<Rightarrow> e)"
  define act where "act = (case actionParam ps of None \<Rightarrow> RenderReportMarkdown | Some a \<Rightarrow> a)"
  define incl where "incl = (case includeStandardParam ps of None \<Rightarrow> False | Some b \<Rightarrow> b)"
  define m where "m = (case maxResultsParam ps of None \<Rightarrow> (50::int) | Some m \<Rightarrow> m)"
  note defs = env_def [symmetric] act_def [symmetric] incl_def [symmetric] m_def [symmetric]
  have search: "\<And>t r. standardPrefixCache s \<subseteq>\<^sub>m
      standardPrefixCache (snd (executeSearchByTable fs t r incl m s))"
    by (rule cache_executeSearchByTable)
  show ?thesis
  proof (cases "act = SearchByTable")
    case True
    then show ?thesis
      using search
      by (simp add: execute_def Let_def defs case_prod_beta split: sum.splits)
  next
    case False
    show ?thesis
    proof (cases "truthy (routineParam ps)")
      case no: False
      with False show ?thesis by (simp add: execute_def Let_def defs)
    next
      case yes: True
      show ?thesis
      proof (cases "normalizeRoutineName (the (routineParam ps))")
        case (Inl e)
        with False yes show ?thesis by (simp add: execute_def Let_def defs)
      next
        case (Inr normalized)
        obtain r s1 where res:
          "resolveRepository fs penv env (repoPathParam ps) normalized s = (r, s1)"
          by (cases "resolveRepository fs penv env (repoPathParam ps) normalized s")
        then have le: "standardPrefixCache s \<subseteq>\<^sub>m standardPrefixCache s1"
          using cache_resolveRepository [of s fs penv env "repoPathParam ps" normalized] by simp
        show ?thesis
        proof (cases r)
          case failure: (Inl out)
          with False yes Inr res le show ?thesis
            by (simp add: execute_def Let_def defs)
        next
          case found: (Inr t)
          obtain root e b where t: "t = (root, e, b)"
            by (cases t)
          with False yes Inr res le found show ?thesis
            by (simp add: execute_def Let_def defs split: option.splits)
        qed
      qed
    qed
  qed
qed

lemma cache_runCall: "standardPrefixCache s \<subseteq>\<^sub>m standardPrefixCache (runCall c s)"
  by (cases c) (simp_all add: cache_isStandardRoutine cache_discoverStandardPrefixes cache_execute)

lemma cache_runCalls: "standardPrefixCache s \<subseteq>\<^sub>m standardPrefixCache (runCalls calls s)"
  unfolding runCalls_def
proof (induction calls arbitrary: s)
  case Nil
  then show ?case by simp
next
  case (Cons c calls)
  show ?case
    using cache_runCall [of s c] Cons.IH [of "runCall c s"] map_le_trans
    by fastforce
qed


text \<open>
  Claim C4. Once a call of \<open>isStandardRoutine\<close> has answered \<open>b\<close> for a name, every
  later call in the same process for a name with the same stripped, upper-cased form
  answers \<open>b\<close> and leaves the state as it is (so no file is read: \<open>contentReads\<close>
  stays), whichever rule gave \<open>b\<close>, whatever file is supplied, and whatever the tool did in
  between.
\<close>

theorem isStandardRoutine_memoized:
  assumes "isStandardRoutine fs name1 path1 s = (b, s1)"
    and "stripUPrefix name2 = stripUPrefix name1"
  shows "isStandardRoutine fs' name2 path2 (runCalls calls s1) = (b, runCalls calls s1)"
proof -
  have "standardPrefixCache s1 (stripUPrefix name1) = Some b"
    using assms(1) by (rule isStandardRoutine_stores)
  then have "standardPrefixCache (runCalls calls s1) (stripUPrefix name2) = Some b"
    using cache_runCalls [of s1 calls] assms(2) by (auto simp: map_le_def dom_def)
  then show ?thesis by (rule isStandardRoutine_hit)
qed


lemma example_classify:
  "fst (isStandardRoutine exampleFs ''PDA001'' (Some ''/hml/PDA001.prw'') initialState) = False"
  "contentReads (snd (isStandardRoutine exampleFs ''PDA001'' (Some ''/hml/PDA001.prw'')
      initialState)) = 1"
  "stripUPrefix ''u_pda001'' = stripUPrefix ''PDA001''"
  by code_simp+

theorem isStandardRoutine_memoized_witness:
  "isStandardRoutine exampleFs ''u_pda001'' None
     (runCalls [Execute exampleFs exampleEnv (lookup ''MATA010'')]
        (snd (isStandardRoutine exampleFs ''PDA001'' (Some ''/hml/PDA001.prw'') initialState))) =
   (False,
    runCalls [Execute exampleFs exampleEnv (lookup ''MATA010'')]
      (snd (isStandardRoutine exampleFs ''PDA001'' (Some ''/hml/PDA001.prw'') initialState)))"
proof -
  have "isStandardRoutine exampleFs ''PDA001'' (Some ''/hml/PDA001.prw'') initialState =
        (False, snd (isStandardRoutine exampleFs ''PDA001'' (Some ''/hml/PDA001.prw'')
                       initialState))"
    using example_classify(1) by (metis prod.collapse)
  then show ?thesis
    using example_classify(3) by (rule isStandardRoutine_memoized)
qed

section \<open>Properties of the table search\<close>

lemma set_insortBy: "set (insortBy cmp x ys) = insert x (set ys)"
  by (induction ys) auto

lemma sorted_insortBy:
  assumes link: "\<And>a b. (cmp a b \<le> 0) = le a b"
    and total: "\<And>a b. le a b \<or> le b a"
    and trans: "\<And>a b c. le a b \<Longrightarrow> le b c \<Longrightarrow> le a c"
  shows "sorted_wrt le ys \<Longrightarrow> sorted_wrt le (insortBy cmp x ys)"
proof (induction ys)
  case Nil
  then show ?case by simp
next
  case (Cons y ys)
  show ?case
  proof (cases "cmp x y \<le> 0")
    case True
    then have xy: "le x y" by (simp add: link)
    have "\<And>z. z \<in> set ys \<Longrightarrow> le x z"
      using Cons.prems xy trans by auto
    with True xy Cons.prems show ?thesis by auto
  next
    case False
    then have "le y x" using total [of x y] by (simp add: link)
    with False Cons show ?thesis by (auto simp: set_insortBy)
  qed
qed

lemma sorted_sortBy:
  assumes "\<And>a b. (cmp a b \<le> 0) = le a b"
    and "\<And>a b. le a b \<or> le b a"
    and "\<And>a b c. le a b \<Longrightarrow> le b c \<Longrightarrow> le a c"
  shows "sorted_wrt le (sortBy cmp xs)"
  unfolding sortBy_def
  by (induction xs) (simp_all add: sorted_insortBy [where le = le, OF assms])

lemma typeOrder_inj: "typeOrder a = typeOrder b \<longleftrightarrow> a = b"
  by (cases a; cases b) (simp_all add: typeOrder_def)

lemma sorted_compareRows:
  "sorted_wrt (\<lambda>a b. typeOrder (usageType a) < typeOrder (usageType b) \<or>
                      (usageType a = usageType b \<and> references b \<le> references a))
     (sortBy compareRows rows)"
proof (rule sorted_sortBy)
  fix a b :: table_search_result
  show "(compareRows a b \<le> 0) =
        (typeOrder (usageType a) < typeOrder (usageType b) \<or>
         (usageType a = usageType b \<and> references b \<le> references a))"
    using typeOrder_inj [of "usageType a" "usageType b"]
    by (auto simp: compareRows_def Let_def)
next
  fix a b :: table_search_result
  show "(typeOrder (usageType a) < typeOrder (usageType b) \<or>
         (usageType a = usageType b \<and> references b \<le> references a)) \<or>
        (typeOrder (usageType b) < typeOrder (usageType a) \<or>
         (usageType b = usageType a \<and> references a \<le> references b))"
    using typeOrder_inj [of "usageType a" "usageType b"] by (cases "references a \<le> references b") auto
next
  fix a b c :: table_search_result
  assume "typeOrder (usageType a) < typeOrder (usageType b) \<or>
          (usageType a = usageType b \<and> references b \<le> references a)"
    and "typeOrder (usageType b) < typeOrder (usageType c) \<or>
          (usageType b = usageType c \<and> references c \<le> references b)"
  then show "typeOrder (usageType a) < typeOrder (usageType c) \<or>
          (usageType a = usageType c \<and> references c \<le> references a)"
    by auto
qed

lemma results_executeSearchByTable:
  "results (fst (executeSearchByTable fs tableName repoPath includeStandard maxResults s)) =
   sortBy compareRows
     (fst (searchLoop fs (toUpperCase tableName) includeStandard maxResults
        (getAllFilesRecursive fs repoPath sourceExtensions 5 0) [] s))"
  by (simp add: executeSearchByTable_def Let_def split: prod.splits)

lemma searchLoop_bounded:
  "1 \<le> maxResults \<Longrightarrow> int (length rows) < maxResults \<Longrightarrow>
   int (length (fst (searchLoop fs tableUpper includeStandard maxResults files rows s))) \<le> maxResults"
proof (induction files arbitrary: rows s)
  case Nil
  then show ?case by simp
next
  case (Cons path rest)
  show ?case
    using Cons.prems Cons.IH
    by (auto simp: Let_def split: option.splits prod.splits)
qed

lemma length_sortBy: "length (sortBy cmp xs) = length xs"
proof -
  have "\<And>x ys. length (insortBy cmp x ys) = Suc (length ys)"
    subgoal for x ys by (induction ys) auto
    done
  then show ?thesis unfolding sortBy_def by (induction xs) auto
qed

lemma executeSearchByTable_bounded:
  "1 \<le> maxResults \<Longrightarrow>
   int (length (results (fst (executeSearchByTable fs tableName repoPath includeStandard maxResults s)))) \<le> maxResults"
  using searchLoop_bounded [of maxResults "[]"]
  by (simp add: results_executeSearchByTable length_sortBy)


lemma example_search:
  "map (\<lambda>r. (routine r, usageType r, references r))
     (results (fst (executeSearchByTable exampleFs ''PD3'' ''/hml'' False 50 initialState))) =
   [(''PDA002'', Browse, 1), (''PDA003'', CRUD, 3), (''PDA001'', CRUD, 2)]"
  "summary (fst (executeSearchByTable exampleFs ''PD3'' ''/hml'' False 50 initialState)) =
   \<lparr> browseRoutines = 1, crudRoutines = 2, reportRoutines = 0, otherRoutines = 0 \<rparr>"
  "totalFound (fst (executeSearchByTable exampleFs ''PD3'' ''/hml'' False 50 initialState)) = 3"
  by code_simp+

text \<open>
  Claim C3, at the input where the code departs from it. The tree \<open>/hml\<close> holds three
  qualifying files: a search with the default limit returns three rows and a search with
  \<open>maxResults = 1\<close> returns one. The limit is tested only after a row was added, so a
  search with \<open>maxResults = 0\<close> returns one row as well, one more than the limit.
\<close>

theorem executeSearchByTable_maxResults_zero:
  "length (results (fst (executeSearchByTable exampleFs ''PD3'' ''/hml'' False 50 initialState))) = 3 \<and>
   length (results (fst (executeSearchByTable exampleFs ''PD3'' ''/hml'' False 1 initialState))) = 1 \<and>
   length (results (fst (executeSearchByTable exampleFs ''PD3'' ''/hml'' False 0 initialState))) = 1"
  by code_simp

text \<open>
  Claim C7. The rows of every table search are in the order of the comparator: of two
  rows, the earlier one has the smaller rank of its usage category, or both have the same
  category and the earlier one has at least as many occurrences. The ranks are
  Browse 1, CRUD 2, Query 3, Report 4, Integration 5, Other 6, so every Browse row stands
  before every CRUD row.
\<close>

theorem executeSearchByTable_sorted:
  "sorted_wrt (\<lambda>a b. typeOrder (usageType a) < typeOrder (usageType b) \<or>
                      (usageType a = usageType b \<and> references b \<le> references a))
     (results (fst (executeSearchByTable fs tableName repoPath includeStandard maxResults s))) \<and>
   map typeOrder [Browse, CRUD, Query, Report, Integration, Other] = [1, 2, 3, 4, 5, 6]"
proof
  show "sorted_wrt (\<lambda>a b. typeOrder (usageType a) < typeOrder (usageType b) \<or>
                      (usageType a = usageType b \<and> references b \<le> references a))
     (results (fst (executeSearchByTable fs tableName repoPath includeStandard maxResults s)))"
    by (simp only: results_executeSearchByTable sorted_compareRows)
  show "map typeOrder [Browse, CRUD, Query, Report, Integration, Other] = [1, 2, 3, 4, 5, 6]"
    by (simp add: typeOrder_def)
qed


theorem executeSearchByTable_sorted_witness:
  "sorted_wrt (\<lambda>a b. typeOrder (usageType a) < typeOrder (usageType b) \<or>
                      (usageType a = usageType b \<and> references b \<le> references a))
     (results (fst (executeSearchByTable exampleFs ''PD3'' ''/hml'' False 50 initialState))) \<and>
   map (\<lambda>r. (routine r, usageType r, references r))
     (results (fst (executeSearchByTable exampleFs ''PD3'' ''/hml'' False 50 initialState))) =
   [(''PDA002'', Browse, 1), (''PDA003'', CRUD, 3), (''PDA001'', CRUD, 2)]"
  by (rule conjI [OF conjunct1 [OF executeSearchByTable_sorted] example_search(1)])

lemma usage_partition:
  "length (filter (\<lambda>r. usageType r = Browse) rows) +
   length (filter (\<lambda>r. usageType r = CRUD) rows) +
   length (filter (\<lambda>r. usageType r = Report) rows) +
   length (filter (\<lambda>r. usageType r \<notin> set [Browse, CRUD, Report]) rows) = length rows"
  by (induction rows) auto

lemma other_filter:
  "filter (\<lambda>r. usageType r \<notin> set [Browse, CRUD, Report]) rows =
   filter (\<lambda>r. usageType r \<in> {Query, Integration, Other}) rows"
proof -
  have "\<And>u. (u \<notin> set [Browse, CRUD, Report]) = (u \<in> {Query, Integration, Other})"
    subgoal for u by (cases u) auto
    done
  then show ?thesis by simp
qed


text \<open>
  Claim C10. In the result of every table search the four counts of the summary add up
  to \<open>totalFound\<close>, which is the number of rows; the first three count the Browse, CRUD
  and Report rows, and \<open>otherRoutines\<close> counts the rows of every other category, that
  is the Query, Integration and Other rows.
\<close>

theorem executeSearchByTable_summary:
  "(let out = fst (executeSearchByTable fs tableName repoPath includeStandard maxResults s) in
      browseRoutines (summary out) + crudRoutines (summary out) + reportRoutines (summary out) +
        otherRoutines (summary out) = totalFound out \<and>
      totalFound out = length (results out) \<and>
      browseRoutines (summary out) = length (filter (\<lambda>r. usageType r = Browse) (results out)) \<and>
      crudRoutines (summary out) = length (filter (\<lambda>r. usageType r = CRUD) (results out)) \<and>
      reportRoutines (summary out) = length (filter (\<lambda>r. usageType r = Report) (results out)) \<and>
      otherRoutines (summary out) =
        length (filter (\<lambda>r. usageType r \<in> {Query, Integration, Other}) (results out)))"
proof -
  obtain found s1 where loop:
    "searchLoop fs (toUpperCase tableName) includeStandard maxResults
       (getAllFilesRecursive fs repoPath sourceExtensions 5 0) [] s = (found, s1)"
    by (cases "searchLoop fs (toUpperCase tableName) includeStandard maxResults
       (getAllFilesRecursive fs repoPath sourceExtensions 5 0) [] s")
  show ?thesis
    using usage_partition [of "sortBy compareRows found"]
      other_filter [of "sortBy compareRows found"]
    by (simp add: executeSearchByTable_def Let_def loop)
qed


theorem executeSearchByTable_summary_witness:
  "(let out = fst (executeSearchByTable exampleFs ''PD3'' ''/hml'' False 50 initialState) in
      browseRoutines (summary out) + crudRoutines (summary out) + reportRoutines (summary out) +
        otherRoutines (summary out) = totalFound out \<and>
      totalFound out = length (results out) \<and>
      browseRoutines (summary out) = length (filter (\<lambda>r. usageType r = Browse) (results out)) \<and>
      crudRoutines (summary out) = length (filter (\<lambda>r. usageType r = CRUD) (results out)) \<and>
      reportRoutines (summary out) = length (filter (\<lambda>r. usageType r = Report) (results out)) \<and>
      otherRoutines (summary out) =
        length (filter (\<lambda>r. usageType r \<in> {Query, Integration, Other}) (results out))) \<and>
   summary (fst (executeSearchByTable exampleFs ''PD3'' ''/hml'' False 50 initialState)) =
     \<lparr> browseRoutines = 1, crudRoutines = 2, reportRoutines = 0, otherRoutines = 0 \<rparr> \<and>
   totalFound (fst (executeSearchByTable exampleFs ''PD3'' ''/hml'' False 50 initialState)) = 3"
  by (rule conjI [OF executeSearchByTable_summary conjI [OF example_search(2) example_search(3)]])

section \<open>Properties of the orchestration\<close>

text \<open>
  What the guard of the discovery pass does ensure: no operation but the pass touches
  the set of discovered prefixes, and once the set is not empty no call of \<open>execute\<close>
  runs the pass again.
\<close>

lemma disc_analyzeFileContent:
  "discoveredPrefixes (snd (analyzeFileContent fs path s)) = discoveredPrefixes s \<and>
   discoveryRuns (snd (analyzeFileContent fs path s)) = discoveryRuns s"
  by (simp add: analyzeFileContent_def Let_def split: option.splits)

lemma disc_isStandardRoutine:
  "discoveredPrefixes (snd (isStandardRoutine fs routineName path s)) = discoveredPrefixes s \<and>
   discoveryRuns (snd (isStandardRoutine fs routineName path s)) = discoveryRuns s"
proof (cases "standardPrefixCache s (stripUPrefix routineName)")
  case (Some b)
  then show ?thesis by (simp add: isStandardRoutine_def Let_def)
next
  case None
  define inner where "inner =
    (if startsWith (toUpperCase routineName) ''U_'' then (False, s)
     else if matchesKnownPrefix s (stripUPrefix routineName) then (True, s)
     else if truthy path then analyzeFileContent fs (the path) s
     else if matchAt [UpperN 4, DigitN 3] (stripUPrefix routineName) \<noteq> None then (True, s)
     else (False, s))"
  have same: "discoveredPrefixes (snd inner) = discoveredPrefixes s \<and>
              discoveryRuns (snd inner) = discoveryRuns s"
    by (simp add: inner_def disc_analyzeFileContent)
  have "snd (isStandardRoutine fs routineName path s) =
        (snd inner)\<lparr> standardPrefixCache :=
           (standardPrefixCache (snd inner))(stripUPrefix routineName \<mapsto> fst inner) \<rparr>"
    using None by (simp add: isStandardRoutine_def Let_def inner_def [symmetric] split: prod.splits)
  then show ?thesis
    by (simp add: same)
qed

lemma disc_resolveRepository:
  assumes "discoveredPrefixes s \<noteq> []"
  shows "discoveredPrefixes (snd (resolveRepository fs penv env manualRepoPath normalized s)) =
           discoveredPrefixes s \<and>
         discoveryRuns (snd (resolveRepository fs penv env manualRepoPath normalized s)) =
           discoveryRuns s"
proof (cases "truthy manualRepoPath")
  case True
  then show ?thesis by (simp add: resolveRepository_def)
next
  case False
  obtain b s1 where cls: "isStandardRoutine fs (baseNameUpper normalized) None s = (b, s1)"
    by (cases "isStandardRoutine fs (baseNameUpper normalized) None s")
  then have "discoveredPrefixes s1 = discoveredPrefixes s \<and> discoveryRuns s1 = discoveryRuns s"
    using disc_isStandardRoutine [of fs "baseNameUpper normalized" None s] by simp
  with assms False show ?thesis
    by (simp add: resolveRepository_def cls Let_def split: sum.splits)
qed

lemma disc_searchLoop:
  "discoveredPrefixes (snd (searchLoop fs tableUpper includeStandard maxResults files rows s)) =
     discoveredPrefixes s \<and>
   discoveryRuns (snd (searchLoop fs tableUpper includeStandard maxResults files rows s)) =
     discoveryRuns s"
proof (induction files arbitrary: rows s)
  case Nil
  then show ?case by simp
next
  case (Cons f files)
  obtain b s1 where cls: "isStandardRoutine fs (basenameNoExt f) (Some f) s = (b, s1)"
    by (cases "isStandardRoutine fs (basenameNoExt f) (Some f) s")
  then have s1: "discoveredPrefixes s1 = discoveredPrefixes s \<and> discoveryRuns s1 = discoveryRuns s"
    using disc_isStandardRoutine [of fs "basenameNoExt f" "Some f" s] by simp
  show ?case
  proof (cases "readFile fs f")
    case None
    then show ?thesis by (simp add: Cons.IH)
  next
    case (Some content)
    show ?thesis
    proof (cases "hasTableReference (toUpperCase content) tableUpper")
      case False
      then show ?thesis by (simp add: Some Cons.IH)
    next
      case True
      show ?thesis
      proof (cases "b \<and> \<not> includeStandard")
        case skip: True
        have "searchLoop fs tableUpper includeStandard maxResults (f # files) rows s =
              searchLoop fs tableUpper includeStandard maxResults files rows s1"
          using Some True skip by (simp add: cls Let_def)
        then show ?thesis by (simp only: Cons.IH s1)
      next
        case keep: False
        define rows1 where "rows1 = rows @
            [\<lparr> usageType = usageType (analyzeTableUsage content tableUpper),
                references = references (analyzeTableUsage content tableUpper),
                hasBrowse = hasBrowse (analyzeTableUsage content tableUpper),
                hasInsert = hasInsert (analyzeTableUsage content tableUpper),
                hasUpdate = hasUpdate (analyzeTableUsage content tableUpper),
                hasDelete = hasDelete (analyzeTableUsage content tableUpper),
                routine = basenameNoExt f, file = basename f, filePath = f \<rparr>]"
        have "searchLoop fs tableUpper includeStandard maxResults (f # files) rows s =
              (if maxResults \<le> int (length rows1) then (rows1, s1)
               else searchLoop fs tableUpper includeStandard maxResults files rows1 s1)"
          using Some True keep by (auto simp: cls Let_def rows1_def)
        then show ?thesis
          using s1 Cons.IH [of rows1 s1] by (cases "maxResults \<le> int (length rows1)") simp_all
      qed
    qed
  qed
qed

lemma disc_executeSearchByTable:
  "discoveredPrefixes (snd (executeSearchByTable fs tableName repoPath includeStandard maxResults s)) =
     discoveredPrefixes s \<and>
   discoveryRuns (snd (executeSearchByTable fs tableName repoPath includeStandard maxResults s)) =
     discoveryRuns s"
proof -
  obtain found s1 where loop:
    "searchLoop fs (toUpperCase tableName) includeStandard maxResults
       (getAllFilesRecursive fs repoPath sourceExtensions 5 0) [] s = (found, s1)"
    by (cases "searchLoop fs (toUpperCase tableName) includeStandard maxResults
       (getAllFilesRecursive fs repoPath sourceExtensions 5 0) [] s")
  then have "discoveredPrefixes s1 = discoveredPrefixes s \<and> discoveryRuns s1 = discoveryRuns s"
    using disc_searchLoop [of fs "toUpperCase tableName" includeStandard maxResults
      "getAllFilesRecursive fs repoPath sourceExtensions 5 0" "[]" s] by simp
  then show ?thesis
    by (simp add: executeSearchByTable_def Let_def loop)
qed

lemma disc_execute:
  assumes "discoveredPrefixes s \<noteq> []"
  shows "discoveredPrefixes (snd (execute fs penv ps s)) = discoveredPrefixes s \<and>
         discoveryRuns (snd (execute fs penv ps s)) = discoveryRuns s"
proof -
  define env where "env = (case envParam ps of None \<Rightarrow> ''AUTO'' | Some e \<Rightarrow> e)"
  define act where "act = (case actionParam ps of None \<Rightarrow> RenderReportMarkdown | Some a \<Rightarrow> a)"
  define incl where "incl = (case includeStandardParam ps of None \<Rightarrow> False | Some b \<Rightarrow> b)"
  define m where "m = (case maxResultsParam ps of None \<Rightarrow> (50::int) | Some m \<Rightarrow> m)"
  note defs = env_def [symmetric] act_def [symmetric] incl_def [symmetric] m_def [symmetric]
  show ?thesis
  proof (cases "act = SearchByTable")
    case True
    then show ?thesis
      by (simp add: execute_def Let_def defs case_prod_beta disc_executeSearchByTable
          split: sum.splits)
  next
    case False
    show ?thesis
    proof (cases "truthy (routineParam ps)")
      case no: False
      with False show ?thesis by (simp add: execute_def Let_def defs)
    next
      case yes: True
      show ?thesis
      proof (cases "normalizeRoutineName (the (routineParam ps))")
        case (Inl e)
        with False yes show ?thesis by (simp add: execute_def Let_def defs)
      next
        case (Inr normalized)
        obtain r s1 where res:
          "resolveRepository fs penv env (repoPathParam ps) normalized s = (r, s1)"
          by (cases "resolveRepository fs penv env (repoPathParam ps) normalized s")
        then have le: "discoveredPrefixes s1 = discoveredPrefixes s \<and>
                       discoveryRuns s1 = discoveryRuns s"
          using disc_resolveRepository [OF assms, of fs penv env "repoPathParam ps" normalized]
          by simp
        show ?thesis
        proof (cases r)
          case failure: (Inl out)
          with False yes Inr res le show ?thesis
            by (simp add: execute_def Let_def defs)
        next
          case found: (Inr t)
          obtain root e b where t: "t = (root, e, b)"
            by (cases t)
          with False yes Inr res le found show ?thesis
            by (simp add: execute_def Let_def defs split: option.splits)
        qed
      qed
    qed
  qed
qed

lemma discovery_once_found:
  "discoveredPrefixes s \<noteq> [] \<Longrightarrow>
   discoveryRuns (runCalls (map (\<lambda>(fs, penv, ps). Execute fs penv ps) requests) s) = discoveryRuns s"
  unfolding runCalls_def
proof (induction requests arbitrary: s)
  case Nil
  then show ?case by simp
next
  case (Cons rq requests)
  obtain fs penv ps where rq: "rq = (fs, penv, ps)"
    by (cases rq)
  have "discoveredPrefixes (snd (execute fs penv ps s)) \<noteq> []"
       "discoveryRuns (snd (execute fs penv ps s)) = discoveryRuns s"
    using disc_execute [OF Cons.prems, of fs penv ps] Cons.prems by simp_all
  then show ?case
    using Cons.IH [of "snd (execute fs penv ps s)"] by (simp add: rq)
qed


text \<open>
  Claim C2, at the input where the code departs from it. The pass is guarded by the
  emptiness of the set of discovered prefixes, not by a record of having run. The vendor
  tree of the example gives the pass no prefix to add (the file name is in lower case), so
  the set is still empty after the first lookup of the standard routine \<open>MATA010\<close>, and
  the second lookup runs the pass again.
\<close>

theorem execute_discovery_runs_again:
  "discoveryRuns (snd (execute exampleFs exampleEnv (lookup ''MATA010'') initialState)) = 1 \<and>
   discoveredPrefixes (snd (execute exampleFs exampleEnv (lookup ''MATA010'') initialState)) = [] \<and>
   discoveryRuns (snd (execute exampleFs exampleEnv (lookup ''MATA010'')
      (snd (execute exampleFs exampleEnv (lookup ''MATA010'') initialState)))) = 2"
  by code_simp

lemma strIncludes_start: "startsWith s kw \<Longrightarrow> strIncludes s kw"
  by (cases s) (auto simp: startsWith_def)

lemma strIncludes_here: "strIncludes (kw @ c) kw"
  by (rule strIncludes_start) (simp add: startsWith_def)

lemma strIncludes_append: "strIncludes (a @ kw @ c) kw"
  by (induction a) (simp_all add: strIncludes_here)

lemma joinWith_member: "x \<in> set xs \<Longrightarrow> \<exists>a c. joinWith sep xs = a @ x @ c"
proof (induction sep xs rule: joinWith.induct)
  case (1 sep)
  then show ?case by simp
next
  case (2 sep y)
  then have "joinWith sep [y] = [] @ x @ []" by simp
  then show ?case by blast
next
  case (3 sep y z zs)
  show ?case
  proof (cases "x = y")
    case True
    then have "joinWith sep (y # z # zs) = [] @ x @ (sep @ joinWith sep (z # zs))" by simp
    then show ?thesis by blast
  next
    case False
    with 3 obtain a c where "joinWith sep (z # zs) = a @ x @ c" by auto
    then have "joinWith sep (y # z # zs) = (y @ sep @ a) @ x @ c" by simp
    then show ?thesis by blast
  qed
qed

lemma notFoundMessage_lists:
  assumes "v \<in> set (take 10 vs)"
  shows "strIncludes (notFoundMessage routineName finalEnv finalRepoPath vs) (''  - '' @ v)"
proof -
  have "''  - '' @ v \<in> set (map (\<lambda>v. ''  - '' @ v) (take 10 vs))"
    using assms by (rule imageI [of v "set (take 10 vs)" "\<lambda>v. ''  - '' @ v", simplified set_map [symmetric]])
  then obtain a c where "joinWith [CHR 0x0A] (map (\<lambda>v. ''  - '' @ v) (take 10 vs)) = a @ (''  - '' @ v) @ c"
    using joinWith_member by blast
  then have "\<exists>a' c'. notFoundMessage routineName finalEnv finalRepoPath vs = a' @ (''  - '' @ v) @ c'"
    unfolding notFoundMessage_def
    by (metis append.assoc)
  then show ?thesis
    using strIncludes_append by metis
qed

lemma normalizeRoutineName_Inr:
  assumes "normalizeRoutineName name0 = Inr n"
  shows "\<exists>b. withoutPrefix n = (if startsWith (toUpperCase b) ''U_'' then drop 2 (toUpperCase b)
                                  else toUpperCase b) \<and>
             withPrefix n = (if startsWith (toUpperCase b) ''U_'' then toUpperCase b
                               else ''U_'' @ toUpperCase b) \<and>
             variations n = newSet ([b, toUpperCase b, withPrefix n, withoutPrefix n] @
                concat (map (\<lambda>ext. [b @ ext, toUpperCase b @ ext, withPrefix n @ ext,
                                      withoutPrefix n @ ext]) extensions))"
proof -
  define b where "b = stripExtension (trim name0)"
  define wp where "wp = (if startsWith (toUpperCase b) ''U_'' then toUpperCase b
                         else ''U_'' @ toUpperCase b)"
  define wo where "wo = (if startsWith (toUpperCase b) ''U_'' then drop 2 (toUpperCase b)
                         else toUpperCase b)"
  have ne: "name0 \<noteq> []" "trim name0 \<noteq> []"
    using assms by (auto simp: normalizeRoutineName_def Let_def split: if_splits)
  then have "normalizeRoutineName name0 =
      Inr \<lparr> original = trim name0, baseName = b, baseNameUpper = toUpperCase b,
            withPrefix = wp, withoutPrefix = wo,
            variations = newSet ([b, toUpperCase b, wp, wo] @
                concat (map (\<lambda>ext. [b @ ext, toUpperCase b @ ext, wp @ ext, wo @ ext])
                  extensions)) \<rparr>"
    by (simp add: normalizeRoutineName_def Let_def b_def wp_def wo_def)
  with assms have n: "n = \<lparr> original = trim name0, baseName = b, baseNameUpper = toUpperCase b,
            withPrefix = wp, withoutPrefix = wo,
            variations = newSet ([b, toUpperCase b, wp, wo] @
                concat (map (\<lambda>ext. [b @ ext, toUpperCase b @ ext, wp @ ext, wo @ ext])
                  extensions)) \<rparr>"
    by simp
  show ?thesis
    by (rule exI [of _ b]) (simp add: n wp_def wo_def)
qed

lemma startsWith_U:
  assumes "startsWith u ''U_''"
  shows "''U_'' @ drop 2 u = u"
proof -
  have "take 2 u = ''U_''"
    using assms by (simp add: startsWith_def numeral_2_eq_2)
  then show ?thesis
    by (metis append_take_drop_id)
qed

lemma variations_many:
  assumes "normalizeRoutineName name0 = Inr n"
  shows "14 \<le> length (variations n)"
proof -
  define w where "w = withoutPrefix n"
  define es where "es = [[], ''.prw'', ''.PRW'', ''.tlpp'', ''.TLPP'', ''.prx'', ''.PRX'']"
  define L where "L = map (\<lambda>e. w @ e) es @ map (\<lambda>e. ''U_'' @ w @ e) es"
  obtain b where
    wo: "withoutPrefix n = (if startsWith (toUpperCase b) ''U_'' then drop 2 (toUpperCase b)
                             else toUpperCase b)" and
    wi: "withPrefix n = (if startsWith (toUpperCase b) ''U_'' then toUpperCase b
                          else ''U_'' @ toUpperCase b)" and
    vs: "variations n = newSet ([b, toUpperCase b, withPrefix n, withoutPrefix n] @
                concat (map (\<lambda>ext. [b @ ext, toUpperCase b @ ext, withPrefix n @ ext,
                                      withoutPrefix n @ ext]) extensions))"
    using normalizeRoutineName_Inr [OF assms] by blast
  have wp: "withPrefix n = ''U_'' @ w"
    using wo wi startsWith_U [of "toUpperCase b"] by (simp add: w_def)
  have "set L = insert w (insert (''U_'' @ w) ((\<lambda>e. w @ e) ` set extensions \<union>
                   (\<lambda>e. (''U_'' @ w) @ e) ` set extensions))"
    by (auto simp: L_def es_def extensions_def)
  also have "\<dots> \<subseteq> set (variations n)"
    unfolding vs set_newSet wp w_def [symmetric] by auto
  finally have sub: "set L \<subseteq> set (variations n)" .
  have d1: "distinct (map (\<lambda>e. w @ e) es)"
    by (simp add: distinct_map es_def inj_on_def)
  have d2: "distinct (map (\<lambda>e. ''U_'' @ w @ e) es)"
    by (simp add: distinct_map es_def inj_on_def)
  have d3: "set (map (\<lambda>e. w @ e) es) \<inter> set (map (\<lambda>e. ''U_'' @ w @ e) es) = {}"
  proof -
    have "w @ e1 \<noteq> ''U_'' @ w @ e2" if "e1 \<in> set es" "e2 \<in> set es" for e1 e2
    proof
      assume "w @ e1 = ''U_'' @ w @ e2"
      then have "length (w @ e1) = length (''U_'' @ w @ e2)"
        by (rule arg_cong)
      then have "length e1 = length e2 + 2"
        by simp
      with that show False
        by (auto simp: es_def)
    qed
    then show ?thesis by auto
  qed
  have "distinct L"
    using d1 d2 d3 by (simp add: L_def)
  then have "length L = card (set L)"
    by (simp add: distinct_card)
  also have "\<dots> \<le> card (set (variations n))"
    using sub by (simp add: card_mono)
  also have "\<dots> = length (variations n)"
    by (simp add: vs distinct_newSet distinct_card)
  finally show ?thesis
    by (simp add: L_def es_def)
qed


text \<open>
  Claim C9. When a lookup (any action but the table search, a routine name given and
  accepted, a root resolved) finds no file under the root, \<open>execute\<close> returns the
  not-found result: it carries the root (\<open>repoPath\<close> and \<open>debug.searchedPath\<close>), the
  normalized name and its whole variation list (\<open>debug.searchedVariations\<close>), and a message
  that holds a line for each of the first ten variations; there are always at least ten.
\<close>

theorem execute_not_found:
  assumes "actionParam ps \<noteq> Some SearchByTable"
    and "truthy (routineParam ps)"
    and "normalizeRoutineName (the (routineParam ps)) = Inr normalized"
    and "resolveRepository fs penv (case envParam ps of None \<Rightarrow> ''AUTO'' | Some e \<Rightarrow> e)
           (repoPathParam ps) normalized s = (Inr (root, finalEnv, isStandard), s1)"
    and "findRoutineFile fs root normalized = None"
  shows "\<exists>nf. execute fs penv ps s = (NotFound nf, s1) \<and>
              nfRepoPath nf = root \<and> searchedPath nf = root \<and>
              debugNormalized nf = normalized \<and>
              searchedVariations nf = variations normalized \<and>
              10 \<le> length (variations normalized) \<and>
              list_all (\<lambda>v. strIncludes (nfMessage nf) (''  - '' @ v))
                (take 10 (variations normalized))"
proof -
  have act: "(case actionParam ps of None \<Rightarrow> RenderReportMarkdown | Some a \<Rightarrow> a) \<noteq> SearchByTable"
    using assms(1) by (cases "actionParam ps") auto
  have ex: "execute fs penv ps s =
      (NotFound \<lparr> nfEnv = finalEnv, nfRepoPath = root, nfRoutine = the (routineParam ps),
                  nfMessage = notFoundMessage (the (routineParam ps)) finalEnv root
                                (variations normalized),
                  debugNormalized = normalized, debugIsStandard = isStandard,
                  searchedPath = root, searchedVariations = variations normalized \<rparr>, s1)"
    using act assms(2-5) by (simp add: execute_def Let_def)
  have "10 \<le> length (variations normalized)"
    using variations_many [OF assms(3)] by simp
  moreover have "list_all (\<lambda>v. strIncludes
      (notFoundMessage (the (routineParam ps)) finalEnv root (variations normalized)) (''  - '' @ v))
      (take 10 (variations normalized))"
    unfolding list_all_iff using notFoundMessage_lists by blast
  ultimately show ?thesis
    by (simp add: ex)
qed

lemma xyz_normal:
  "normalizeRoutineName ''U_XYZ'' =
     Inr \<lparr> original = ''U_XYZ'', baseName = ''U_XYZ'', baseNameUpper = ''U_XYZ'',
           withPrefix = ''U_XYZ'', withoutPrefix = ''XYZ'',
           variations = [''U_XYZ'', ''XYZ'', ''U_XYZ.prw'', ''XYZ.prw'', ''U_XYZ.PRW'', ''XYZ.PRW'',
                         ''U_XYZ.tlpp'', ''XYZ.tlpp'', ''U_XYZ.TLPP'', ''XYZ.TLPP'',
                         ''U_XYZ.prx'', ''XYZ.prx'', ''U_XYZ.PRX'', ''XYZ.PRX''] \<rparr>"
  by code_simp


lemma example_not_found:
  "fst (resolveRepository exampleFs exampleEnv ''AUTO'' None
     \<lparr> original = ''U_XYZ'', baseName = ''U_XYZ'', baseNameUpper = ''U_XYZ'',
       withPrefix = ''U_XYZ'', withoutPrefix = ''XYZ'',
       variations = [''U_XYZ'', ''XYZ'', ''U_XYZ.prw'', ''XYZ.prw'', ''U_XYZ.PRW'', ''XYZ.PRW'',
                     ''U_XYZ.tlpp'', ''XYZ.tlpp'', ''U_XYZ.TLPP'', ''XYZ.TLPP'',
                     ''U_XYZ.prx'', ''XYZ.prx'', ''U_XYZ.PRX'', ''XYZ.PRX''] \<rparr> initialState) =
   Inr (''/hml'', ''HML'', False)"
  "findRoutineFile exampleFs ''/hml''
     \<lparr> original = ''U_XYZ'', baseName = ''U_XYZ'', baseNameUpper = ''U_XYZ'',
       withPrefix = ''U_XYZ'', withoutPrefix = ''XYZ'',
       variations = [''U_XYZ'', ''XYZ'', ''U_XYZ.prw'', ''XYZ.prw'', ''U_XYZ.PRW'', ''XYZ.PRW'',
                     ''U_XYZ.tlpp'', ''XYZ.tlpp'', ''U_XYZ.TLPP'', ''XYZ.TLPP'',
                     ''U_XYZ.prx'', ''XYZ.prx'', ''U_XYZ.PRX'', ''XYZ.PRX''] \<rparr> = None"
  by code_simp+

theorem execute_not_found_witness:
  "\<exists>nf. fst (execute exampleFs exampleEnv (lookup ''U_XYZ'') initialState) = NotFound nf \<and>
        nfRepoPath nf = ''/hml'' \<and> searchedPath nf = ''/hml'' \<and>
        take 4 (searchedVariations nf) = [''U_XYZ'', ''XYZ'', ''U_XYZ.prw'', ''XYZ.prw''] \<and>
        list_all (\<lambda>v. strIncludes (nfMessage nf) (''  - '' @ v))
          (take 10 (searchedVariations nf))"
proof -
  define n where "n =
     \<lparr> original = ''U_XYZ'', baseName = ''U_XYZ'', baseNameUpper = ''U_XYZ'',
       withPrefix = ''U_XYZ'', withoutPrefix = ''XYZ'',
       variations = [''U_XYZ'', ''XYZ'', ''U_XYZ.prw'', ''XYZ.prw'', ''U_XYZ.PRW'', ''XYZ.PRW'',
                     ''U_XYZ.tlpp'', ''XYZ.tlpp'', ''U_XYZ.TLPP'', ''XYZ.TLPP'',
                     ''U_XYZ.prx'', ''XYZ.prx'', ''U_XYZ.PRX'', ''XYZ.PRX''] \<rparr>"
  define s1 where "s1 = snd (resolveRepository exampleFs exampleEnv ''AUTO'' None n initialState)"
  have a: "actionParam (lookup ''U_XYZ'') \<noteq> Some SearchByTable"
    and r: "truthy (routineParam (lookup ''U_XYZ''))"
    by (simp_all add: lookup_def)
  have nrm: "normalizeRoutineName (the (routineParam (lookup ''U_XYZ''))) = Inr n"
    using xyz_normal by (simp add: lookup_def n_def)
  have res: "resolveRepository exampleFs exampleEnv
        (case envParam (lookup ''U_XYZ'') of None \<Rightarrow> ''AUTO'' | Some e \<Rightarrow> e)
        (repoPathParam (lookup ''U_XYZ'')) n initialState = (Inr (''/hml'', ''HML'', False), s1)"
    using example_not_found(1) unfolding n_def [symmetric] s1_def
    by (simp add: lookup_def prod_eq_iff)
  have none: "findRoutineFile exampleFs ''/hml'' n = None"
    using example_not_found(2) by (simp add: n_def)
  obtain nf where nf: "execute exampleFs exampleEnv (lookup ''U_XYZ'') initialState = (NotFound nf, s1)"
      "nfRepoPath nf = ''/hml''" "searchedPath nf = ''/hml''"
      "searchedVariations nf = variations n"
      "list_all (\<lambda>v. strIncludes (nfMessage nf) (''  - '' @ v)) (take 10 (variations n))"
    using execute_not_found [OF a r nrm res none] by blast
  have "take 4 (variations n) = [''U_XYZ'', ''XYZ'', ''U_XYZ.prw'', ''XYZ.prw'']"
    by (simp add: n_def)
  with nf show ?thesis
    by (intro exI [of _ nf]) simp
qed

end
